theory Spec2Isabelle
  imports Complex_Main "HOL-Library.Multiset"
begin

section \<open>Localised ensemble Kalman filter for ocean states (LEnKFOcean)\<close>

text \<open>
  A shallow embedding of \<^verbatim>\<open>src/gpuocean/dataassimilation/LEnKFOcean.py\<close>.
  Python floats and numpy \<^verbatim>\<open>float64\<close> values are modelled as exact reals, so every
  statement below is about the arithmetic the code describes, not about rounding.
  Python exceptions are values of the type \<open>error\<close>.
\<close>

datatype error =
    AssertionError string
  | ValueError
  | IndexError
  | LinAlgError
  | ZeroDivisionError
  | AttributeError
  | TypeError
  | NameError

subsection \<open>The localisation kernel \<^verbatim>\<open>distGC\<close>\<close>

type_synonym vec2 = "real \<times> real"

text \<open>\<^verbatim>\<open>np.linalg.norm\<close> of a vector with two components.\<close>

definition norm2 :: "vec2 \<Rightarrow> real" where
  "norm2 v = sqrt ((fst v)\<^sup>2 + (snd v)\<^sup>2)"

text \<open>
  The scalar branch of \<^verbatim>\<open>distGC\<close> (\<^verbatim>\<open>len(loc.shape) == 1\<close>): the distance is the
  smallest of four norms, which accounts for the periodic domain of extent \<open>lx\<close> by \<open>ly\<close>.
\<close>

definition distGC_dist :: "vec2 \<Rightarrow> vec2 \<Rightarrow> real \<Rightarrow> real \<Rightarrow> real" where
  "distGC_dist obs loc lx ly =
     (let ax = \<bar>fst obs - fst loc\<bar>; ay = \<bar>snd obs - snd loc\<bar>
      in min (norm2 (ax, ay))
          (min (norm2 (ax - lx, ay))
            (min (norm2 (ax, ay - ly))
                 (norm2 (ax - lx, ay - ly)))))"

text \<open>The two polynomial branches, as functions of \<open>q = dist / r\<close>.\<close>

definition gc_near :: "real \<Rightarrow> real" where
  "gc_near q = 1 - 5/3 * q^2 + 5/8 * q^3 + 1/2 * q^4 - 1/4 * q^5"

definition gc_far :: "real \<Rightarrow> real" where
  "gc_far q = 4 - 5 * q + 5/3 * q^2 + 5/8 * q^3 - 1/2 * q^4 + 1/12 * q^5 - 2 / (3 * q)"

text \<open>
  The value of the kernel at distance \<open>d\<close> for radius \<open>r\<close>: \<^verbatim>\<open>distGC = 0.0\<close> is
  overwritten on the first branch when \<^verbatim>\<open>dist/r < 1\<close> and on the second one when
  \<^verbatim>\<open>dist/r >= 1 and dist/r < 2\<close>.
\<close>

definition distGC_value :: "real \<Rightarrow> real \<Rightarrow> real" where
  "distGC_value d r =
     (if d / r < 1 then gc_near (d / r)
      else if d / r \<ge> 1 \<and> d / r < 2 then gc_far (d / r)
      else 0)"

definition distGC :: "vec2 \<Rightarrow> vec2 \<Rightarrow> real \<Rightarrow> real \<Rightarrow> real \<Rightarrow> real" where
  "distGC obs loc r lx ly = distGC_value (distGC_dist obs loc lx ly) r"

subsection \<open>Properties of the kernel\<close>

lemma gc_near_deriv: "(gc_near has_real_derivative (- 10/3 * q + 15/8 * q^2 + 2 * q^3 - 5/4 * q^4)) (at q)"
  unfolding gc_near_def
  by (auto intro!: derivative_eq_intros simp: field_simps power2_eq_square power3_eq_cube power4_eq_xxxx)

lemma gc_far_deriv: "q \<noteq> 0 \<Longrightarrow> (gc_far has_real_derivative (- 5 + 10/3 * q + 15/8 * q^2 - 2 * q^3 + 5/12 * q^4 + 2 / (3 * q^2))) (at q)"
  unfolding gc_far_def
  by (auto intro!: derivative_eq_intros simp: field_simps power2_eq_square power3_eq_cube power4_eq_xxxx)

lemma gc_near_slope:
  fixes q :: real
  assumes "0 \<le> q" "q \<le> 1"
  shows "- 10/3 * q + 15/8 * q^2 + 2 * q^3 - 5/4 * q^4 \<le> 0"
proof -
  have a: "q^2 \<le> q" using assms by (simp add: power2_eq_square mult_left_le)
  have d: "0 \<le> q^3" using assms by simp
  have "0 \<le> (q * (1 - q))^2" by simp
  then have e: "2 * q^3 - q^2 \<le> q^4"
    by (simp add: algebra_simps power2_eq_square power3_eq_cube power4_eq_xxxx)
  show ?thesis using a d e assms by linarith
qed

lemma gc_far_slope:
  fixes q :: real
  assumes "1 \<le> q" "q \<le> 2"
  shows "- 5 + 10/3 * q + 15/8 * q^2 - 2 * q^3 + 5/12 * q^4 + 2 / (3 * q^2) \<le> 0"
proof -
  have q0: "0 < q" using assms by simp
  have fac: "24 * q^2 * (- 5 + 10/3 * q + 15/8 * q^2 - 2 * q^3 + 5/12 * q^4 + 2 / (3 * q^2))
      = (q - 2)^3 * (10 * q^3 + 12 * q^2 - 3 * q - 2)"
    using q0 by (simp add: field_simps power2_eq_square power3_eq_cube power4_eq_xxxx)
  have "q \<le> q^2" using assms by (simp add: power2_eq_square)
  moreover have "0 \<le> q^3" using q0 by simp
  ultimately have p: "0 \<le> 10 * q^3 + 12 * q^2 - 3 * q - 2" using assms by linarith
  have "(q - 2)^3 \<le> 0" using assms by (simp add: power3_eq_cube mult_nonneg_nonpos mult_nonpos_nonpos zero_le_mult_iff mult_le_0_iff)
  then have "(q - 2)^3 * (10 * q^3 + 12 * q^2 - 3 * q - 2) \<le> 0"
    using p by (simp add: mult_nonpos_nonneg)
  then have "24 * q^2 * (- 5 + 10/3 * q + 15/8 * q^2 - 2 * q^3 + 5/12 * q^4 + 2 / (3 * q^2)) \<le> 0"
    using fac by simp
  moreover have "0 < 24 * q^2" using q0 by simp
  ultimately show ?thesis by (simp add: mult_le_0_iff)
qed


lemma gc_near_mono:
  assumes "0 \<le> a" "a \<le> b" "b \<le> 1"
  shows "gc_near b \<le> gc_near a"
proof (rule DERIV_nonpos_imp_nonincreasing [OF assms(2)])
  fix x assume "a \<le> x" "x \<le> b"
  then have "0 \<le> x" "x \<le> 1" using assms by auto
  then show "\<exists>y. (gc_near has_real_derivative y) (at x) \<and> y \<le> 0"
    using gc_near_deriv [of x] gc_near_slope [of x] by blast
qed

lemma gc_far_mono:
  assumes "1 \<le> a" "a \<le> b" "b \<le> 2"
  shows "gc_far b \<le> gc_far a"
proof (rule DERIV_nonpos_imp_nonincreasing [OF assms(2)])
  fix x assume "a \<le> x" "x \<le> b"
  then have "1 \<le> x" "x \<le> 2" using assms by auto
  then show "\<exists>y. (gc_far has_real_derivative y) (at x) \<and> y \<le> 0"
    using gc_far_deriv [of x] gc_far_slope [of x] by force
qed

lemma gc_near_0: "gc_near 0 = 1"
  by (simp add: gc_near_def)

lemma gc_near_1: "gc_near 1 = 5/24"
  by (simp add: gc_near_def)

lemma gc_far_1: "gc_far 1 = 5/24"
  by (simp add: gc_far_def)

lemma gc_far_2: "gc_far 2 = 0"
  by (simp add: gc_far_def)

lemma distGC_value_mono:
  assumes r: "0 < r" and d: "0 \<le> d1" "d1 \<le> d2"
  shows "distGC_value d2 r \<le> distGC_value d1 r"
proof -
  define q1 where "q1 = d1 / r"
  define q2 where "q2 = d2 / r"
  have q: "0 \<le> q1" "q1 \<le> q2"
    using r d by (simp_all add: q1_def q2_def divide_right_mono)
  consider "q2 < 1" | "q1 < 1" "1 \<le> q2" "q2 < 2" | "q1 < 1" "2 \<le> q2"
    | "1 \<le> q1" "q2 < 2" | "1 \<le> q1" "q1 < 2" "2 \<le> q2" | "2 \<le> q1"
    by linarith
  then have "(if q2 < 1 then gc_near q2 else if q2 \<ge> 1 \<and> q2 < 2 then gc_far q2 else 0)
      \<le> (if q1 < 1 then gc_near q1 else if q1 \<ge> 1 \<and> q1 < 2 then gc_far q1 else 0)"
  proof cases
    case 1
    then show ?thesis using q gc_near_mono [of q1 q2] by simp
  next
    case 2
    have "gc_far q2 \<le> gc_far 1" using 2 gc_far_mono [of 1 q2] by simp
    moreover have "gc_near 1 \<le> gc_near q1" using 2 q gc_near_mono [of q1 1] by simp
    ultimately show ?thesis using 2 by (simp add: gc_near_1 gc_far_1)
  next
    case 3
    have "gc_near 1 \<le> gc_near q1" using 3 q gc_near_mono [of q1 1] by simp
    then show ?thesis using 3 by (simp add: gc_near_1)
  next
    case 4
    then show ?thesis using q gc_far_mono [of q1 q2] by simp
  next
    case 5
    have "gc_far 2 \<le> gc_far q1" using 5 gc_far_mono [of q1 2] by simp
    then show ?thesis using 5 by (simp add: gc_far_2)
  next
    case 6
    then show ?thesis using q by simp
  qed
  then show ?thesis unfolding distGC_value_def q1_def q2_def .
qed

lemma distGC_value_far: "0 < r \<Longrightarrow> 2 * r \<le> d \<Longrightarrow> distGC_value d r = 0"
  by (simp add: distGC_value_def pos_le_divide_eq pos_divide_less_eq)

lemma distGC_value_nonneg:
  assumes "0 < r" "0 \<le> d"
  shows "0 \<le> distGC_value d r"
proof -
  have "distGC_value (max d (2 * r)) r \<le> distGC_value d r"
    using assms by (intro distGC_value_mono) auto
  moreover have "distGC_value (max d (2 * r)) r = 0"
    using assms by (intro distGC_value_far) auto
  ultimately show ?thesis by simp
qed


lemma distGC_value_isCont:
  assumes r: "0 < r"
  shows "isCont (\<lambda>d. distGC_value d r) r"
proof -
  let ?h = "\<lambda>d. if d \<le> r then gc_near (d / r) else gc_far (d / r)"
  have near: "continuous (at_left r) (\<lambda>d. gc_near (d / r))"
    unfolding gc_near_def using r by (intro continuous_intros) auto
  have "isCont (\<lambda>d. gc_far (d / r)) r"
    unfolding gc_far_def using r by (intro continuous_intros) auto
  then have "((\<lambda>d. gc_far (d / r)) \<longlongrightarrow> gc_far (r / r)) (at_right r)"
    by (simp add: isCont_def filterlim_at_split)
  then have "((\<lambda>d. gc_far (d / r)) \<longlongrightarrow> gc_near (r / r)) (at_right r)"
    using r by (simp add: gc_near_1 gc_far_1)
  then have h: "isCont ?h r"
    using near by (rule isCont_If_ge [rotated])
  have "\<forall>\<^sub>F d in nhds r. 0 < d \<and> d < 2 * r"
    unfolding eventually_nhds using r by (intro exI [of _ "{0 <..< 2 * r}"]) auto
  then have "\<forall>\<^sub>F d in nhds r. distGC_value d r = ?h d"
  proof (rule eventually_mono)
    fix d assume d: "0 < d \<and> d < 2 * r"
    show "distGC_value d r = ?h d"
    proof (cases "d < r")
      case True
      then show ?thesis using r by (simp add: distGC_value_def)
    next
      case False
      show ?thesis
      proof (cases "d = r")
        case True
        then show ?thesis using r by (simp add: distGC_value_def gc_near_1 gc_far_1)
      next
        case False
        with \<open>\<not> d < r\<close> have "r < d" by simp
        then show ?thesis using r d by (simp add: distGC_value_def pos_divide_less_eq pos_le_divide_eq)
      qed
    qed
  qed
  then show ?thesis using h by (simp add: isCont_cong)
qed

text \<open>
  Claim C3. For a fixed radius \<open>r > 0\<close> the kernel, as a function of the scalar distance
  \<open>d\<close>, is 1 at \<open>d = 0\<close>, is 0 for every \<open>d \<ge> 2r\<close>, its two polynomial branches agree
  at \<open>d = r\<close> (so it is continuous there), and it is monotonically non-increasing in
  \<open>d\<close> on \<open>[0, \<infinity>)\<close>.
\<close>

theorem distGC_kernel_properties:
  assumes "0 < r"
  shows "distGC_value 0 r = 1
       \<and> (\<forall>d. 2 * r \<le> d \<longrightarrow> distGC_value d r = 0)
       \<and> gc_near (r / r) = gc_far (r / r)
       \<and> isCont (\<lambda>d. distGC_value d r) r
       \<and> (\<forall>d1 d2. 0 \<le> d1 \<longrightarrow> d1 \<le> d2 \<longrightarrow> distGC_value d2 r \<le> distGC_value d1 r)"
proof -
  have "distGC_value 0 r = 1"
    by (simp add: distGC_value_def gc_near_0)
  moreover have "gc_near (r / r) = gc_far (r / r)"
    using assms by (simp add: gc_near_1 gc_far_1)
  ultimately show ?thesis
    using assms distGC_value_far distGC_value_isCont distGC_value_mono by blast
qed

theorem distGC_kernel_properties_witness:
  "(0::real) < 1 \<and> distGC_value 0 1 = 1 \<and> distGC_value 2 1 = 0 \<and> gc_near (1 / 1) = gc_far (1 / 1)
     \<and> distGC_value 1 1 \<le> distGC_value (1/2) 1"
proof -
  have h: "(0::real) < 1" by simp
  note t = distGC_kernel_properties [OF h]
  have "distGC_value 2 1 = 0" using t by simp
  moreover have "distGC_value 1 1 \<le> distGC_value (1/2) 1" using t by simp
  ultimately show ?thesis using t by simp
qed

subsection \<open>Observation groups: \<^verbatim>\<open>initializeGroups\<close>\<close>

text \<open>
  The body of the double loop that assembles \<^verbatim>\<open>obs_dist_mat\<close>: the distance of two
  positions on the periodic domain of extent \<open>xdim\<close> by \<open>ydim\<close>.
\<close>

definition periodic_distance :: "real \<Rightarrow> real \<Rightarrow> vec2 \<Rightarrow> vec2 \<Rightarrow> real" where
  "periodic_distance xdim ydim p q =
     (let dx = \<bar>fst p - fst q\<bar>;
          dx = (if dx > xdim / 2 then xdim - dx else dx);
          dy = \<bar>snd p - snd q\<bar>;
          dy = (if dy > ydim / 2 then ydim - dy else dy)
      in sqrt (dx\<^sup>2 + dy\<^sup>2))"

text \<open>
  Entry \<open>(i, j)\<close> of \<^verbatim>\<open>obs_dist_mat\<close> after \<^verbatim>\<open>np.fill_diagonal\<close>: the periodic
  distance between drifters \<open>i\<close> and \<open>j\<close>, and the length of the domain's diagonal on
  the matrix diagonal.
\<close>

definition obs_dist_mat :: "real \<Rightarrow> real \<Rightarrow> vec2 list \<Rightarrow> nat \<Rightarrow> nat \<Rightarrow> real" where
  "obs_dist_mat xdim ydim drifter_positions i j =
     (if i = j then sqrt (xdim\<^sup>2 + ydim\<^sup>2)
      else periodic_distance xdim ydim (drifter_positions ! i) (drifter_positions ! j))"

text \<open>
  \<^verbatim>\<open>obs_dist_mat[np.ix_(group, group)]\<close>: the index pairs of the sub-matrix in row-major
  order, and its entries.
\<close>

definition ix_pairs :: "nat list \<Rightarrow> (nat \<times> nat) list" where
  "ix_pairs grp = concat (map (\<lambda>i. map (\<lambda>j. (i, j)) grp) grp)"

definition ix_entries :: "(nat \<Rightarrow> nat \<Rightarrow> real) \<Rightarrow> nat list \<Rightarrow> real list" where
  "ix_entries M grp = map (\<lambda>(i, j). M i j) (ix_pairs grp)"

text \<open>\<^verbatim>\<open>.min()\<close> of an array raises \<^verbatim>\<open>ValueError\<close> when the array is empty.\<close>

definition array_min :: "real list \<Rightarrow> error + real" where
  "array_min xs = (case xs of [] \<Rightarrow> Inl ValueError | x # ys \<Rightarrow> Inr (fold min ys x))"

text \<open>
  \<^verbatim>\<open>self.groups[g][np.where(sub == sub.min())[1][0]]\<close>: the column member of the first
  entry, in row-major order, that equals the minimum. Indexing an empty result with
  \<^verbatim>\<open>[0]\<close> raises \<^verbatim>\<open>IndexError\<close>.
\<close>

definition idx2move_of :: "(nat \<Rightarrow> nat \<Rightarrow> real) \<Rightarrow> nat list \<Rightarrow> real \<Rightarrow> error + nat" where
  "idx2move_of M grp m =
     (case find (\<lambda>(i, j). M i j = m) (ix_pairs grp) of
        None \<Rightarrow> Inl IndexError
      | Some (i, j) \<Rightarrow> Inr j)"

text \<open>
  One pass of the loop body: the index to move leaves group \<open>g\<close> (\<^verbatim>\<open>np.delete\<close> drops
  every position holding it) and is appended to group \<open>g + 1\<close>, which is created when
  the list of groups is too short.
\<close>

definition move_index :: "nat \<Rightarrow> nat \<Rightarrow> nat list list \<Rightarrow> nat list list" where
  "move_index g idx2move groups =
     (let groups1 = groups[g := filter (\<lambda>k. k \<noteq> idx2move) (groups ! g)]
      in if length groups1 < g + 2 then groups1 @ [[idx2move]]
         else groups1[g + 1 := groups1 ! (g + 1) @ [idx2move]])"

text \<open>The inner \<^verbatim>\<open>while\<close> loop; \<^verbatim>\<open>self.groups[g]\<close> raises \<^verbatim>\<open>IndexError\<close> out of range.\<close>

function inner_loop :: "(nat \<Rightarrow> nat \<Rightarrow> real) \<Rightarrow> real \<Rightarrow> nat \<Rightarrow> nat list list \<Rightarrow> error + nat list list" where
  "inner_loop M threshold g groups =
     (if length groups \<le> g then Inl IndexError
      else case array_min (ix_entries M (groups ! g)) of
        Inl e \<Rightarrow> Inl e
      | Inr m \<Rightarrow>
          if m < threshold then
            (case idx2move_of M (groups ! g) m of
               Inl e \<Rightarrow> Inl e
             | Inr idx2move \<Rightarrow> inner_loop M threshold g (move_index g idx2move groups))
          else Inr groups)"
  by pat_completeness auto

lemma set_ix_pairs: "set (ix_pairs grp) = set grp \<times> set grp"
  by (auto simp: ix_pairs_def)

lemma idx2move_of_member: "idx2move_of M grp m = Inr k \<Longrightarrow> k \<in> set grp"
proof -
  assume a: "idx2move_of M grp m = Inr k"
  then obtain i where "find (\<lambda>(i, j). M i j = m) (ix_pairs grp) = Some (i, k)"
    by (auto simp: idx2move_of_def split: option.splits prod.splits)
  then have "(i, k) \<in> set (ix_pairs grp)"
    by (metis find_Some_iff nth_mem)
  then show ?thesis by (simp add: set_ix_pairs)
qed

lemma move_index_nth_g:
  "g < length groups \<Longrightarrow> move_index g k groups ! g = filter (\<lambda>j. j \<noteq> k) (groups ! g)"
  by (simp add: move_index_def Let_def nth_append)

lemma length_move_index:
  "g < length groups \<Longrightarrow> length (move_index g k groups) = max (length groups) (g + 2)"
  by (auto simp add: move_index_def Let_def)

termination inner_loop
proof (relation "measure (\<lambda>(M, threshold, g, groups). length (groups ! g))", goal_cases)
  case 1
  show ?case by simp
next
  case (2 M threshold g groups m idx2move)
  then have "idx2move \<in> set (groups ! g)" by (simp add: idx2move_of_member)
  then have "length (filter (\<lambda>j. j \<noteq> idx2move) (groups ! g)) < length (groups ! g)"
    by (simp add: length_filter_less)
  then show ?case using 2 by (simp add: move_index_nth_g)
qed


declare inner_loop.simps [simp del]

lemma array_min_Inr_nonempty: "array_min (ix_entries M grp) = Inr m \<Longrightarrow> grp \<noteq> []"
  by (auto simp: array_min_def ix_entries_def ix_pairs_def)

lemma concat_drop_move_index:
  assumes "g < length groups" "k \<in> set (groups ! g)"
  shows "length (concat (drop g (move_index g k groups))) \<le> length (concat (drop g groups))"
proof -
  let ?f = "filter (\<lambda>j. j \<noteq> k) (groups ! g)"
  have f: "length ?f < length (groups ! g)"
    using assms(2) by (simp add: length_filter_less)
  have d: "drop g groups = groups ! g # drop (Suc g) groups"
    using assms(1) by (simp add: Cons_nth_drop_Suc)
  show ?thesis
  proof (cases "length groups < g + 2")
    case True
    then have "drop (Suc g) groups = []" using assms(1) by simp
    moreover have "drop g (move_index g k groups) = [?f, [k]]"
      using True assms(1) by (simp add: move_index_def Let_def drop_update_cancel Cons_nth_drop_Suc [symmetric] nth_append)
    ultimately show ?thesis using f d by simp
  next
    case False
    then have g1: "Suc g < length groups" by simp
    then have d1: "drop (Suc g) groups = groups ! Suc g # drop (Suc (Suc g)) groups"
      by (simp add: Cons_nth_drop_Suc)
    have "drop g (move_index g k groups) = ?f # (groups ! Suc g @ [k]) # drop (Suc (Suc g)) groups"
      using False g1 assms(1)
      by (simp add: move_index_def Let_def Cons_nth_drop_Suc [symmetric] drop_update_cancel)
    then show ?thesis using f d d1 by simp
  qed
qed

lemma inner_loop_result:
  "inner_loop M threshold g groups = Inr groups' \<Longrightarrow>
     g < length groups' \<and> groups' ! g \<noteq> []
     \<and> length (concat (drop g groups')) \<le> length (concat (drop g groups))"
proof (induction M threshold g groups rule: inner_loop.induct)
  case (1 M threshold g groups)
  from "1.prems" have g: "g < length groups"
    by (subst (asm) inner_loop.simps) (auto split: if_splits)
  from "1.prems" g obtain m where m: "array_min (ix_entries M (groups ! g)) = Inr m"
    by (subst (asm) inner_loop.simps) (auto split: sum.splits)
  show ?case
  proof (cases "m < threshold")
    case True
    with "1.prems" g m obtain k where k: "idx2move_of M (groups ! g) m = Inr k"
      and r: "inner_loop M threshold g (move_index g k groups) = Inr groups'"
      by (subst (asm) inner_loop.simps) (auto split: sum.splits)
    have "g < length groups' \<and> groups' ! g \<noteq> []
       \<and> length (concat (drop g groups')) \<le> length (concat (drop g (move_index g k groups)))"
      using "1.IH" [OF _ m True k r] g by simp
    moreover have "length (concat (drop g (move_index g k groups))) \<le> length (concat (drop g groups))"
      using g k by (intro concat_drop_move_index idx2move_of_member)
    ultimately show ?thesis by simp
  next
    case False
    with "1.prems" g m have "groups' = groups"
      by (subst (asm) inner_loop.simps) auto
    then show ?thesis using g m array_min_Inr_nonempty by auto
  qed
qed

text \<open>The outer \<^verbatim>\<open>while\<close> loop, which advances \<open>g\<close> after each run of the inner one.\<close>

function outer_loop :: "(nat \<Rightarrow> nat \<Rightarrow> real) \<Rightarrow> real \<Rightarrow> nat \<Rightarrow> nat list list \<Rightarrow> error + nat list list" where
  "outer_loop M threshold g groups =
     (if length groups \<le> g then Inl IndexError
      else case array_min (ix_entries M (groups ! g)) of
        Inl e \<Rightarrow> Inl e
      | Inr m \<Rightarrow>
          if m < threshold then
            (case inner_loop M threshold g groups of
               Inl e \<Rightarrow> Inl e
             | Inr groups' \<Rightarrow> outer_loop M threshold (g + 1) groups')
          else Inr groups)"
  by pat_completeness auto
termination
proof (relation "measure (\<lambda>(M, threshold, g, groups). length (concat (drop g groups)))", goal_cases)
  case 1
  show ?case by simp
next
  case (2 M threshold g groups m groups')
  then have r: "g < length groups'" "groups' ! g \<noteq> []"
    "length (concat (drop g groups')) \<le> length (concat (drop g groups))"
    using inner_loop_result [of M threshold g groups groups'] by simp_all
  have "drop g groups' = groups' ! g # drop (Suc g) groups'"
    using r(1) by (simp add: Cons_nth_drop_Suc)
  then have "length (concat (drop (Suc g) groups')) < length (concat (drop g groups'))"
    using r(2) by simp
  then show ?case using r(3) by simp
qed

declare outer_loop.simps [simp del]

text \<open>The whole of \<^verbatim>\<open>initializeGroups\<close>, given the drifter positions and the grid.\<close>

definition initializeGroups :: "vec2 list \<Rightarrow> real \<Rightarrow> real \<Rightarrow> real \<Rightarrow> real \<Rightarrow> error + nat list list" where
  "initializeGroups drifter_positions xdim ydim r_factor dx0 =
     (let N_y = length drifter_positions;
          M = obs_dist_mat xdim ydim drifter_positions;
          groups = [[0 ..< N_y]];
          threshold = 2.0 * 1.5 * r_factor * dx0
      in outer_loop M threshold 0 groups)"

lemma array_min_entries:
  "array_min xs = Inr m \<Longrightarrow> m \<in> set xs \<and> (\<forall>x \<in> set xs. m \<le> x)"
proof -
  assume a: "array_min xs = Inr m"
  then obtain x ys where xs: "xs = x # ys" and m: "m = fold min ys x"
    by (auto simp: array_min_def split: list.splits)
  have "fold min ys x = Min (set (x # ys))"
    by (rule Min.set_eq_fold [symmetric])
  then show ?thesis using xs m by (metis List.finite_set Min_in Min_le list.discI set_empty)
qed

lemma array_min_nonempty: "xs \<noteq> [] \<Longrightarrow> \<exists>m. array_min xs = Inr m"
  by (cases xs) (auto simp: array_min_def)

lemma set_ix_entries: "set (ix_entries M grp) = (\<lambda>(i, j). M i j) ` (set grp \<times> set grp)"
  by (simp add: ix_entries_def set_ix_pairs)

lemma idx2move_of_total:
  assumes "array_min (ix_entries M grp) = Inr m"
  shows "\<exists>k. idx2move_of M grp m = Inr k"
proof -
  have "m \<in> set (ix_entries M grp)" using assms array_min_entries by blast
  then obtain p where "p \<in> set (ix_pairs grp)" "(case p of (i, j) \<Rightarrow> M i j = m)"
    by (auto simp: ix_entries_def)
  then have "find (\<lambda>(i, j). M i j = m) (ix_pairs grp) \<noteq> None"
    by (auto simp: find_None_iff)
  then show ?thesis by (auto simp: idx2move_of_def split: option.splits)
qed


lemma move_index_last:
  "move_index (length pre) k (pre @ [cur]) = pre @ [filter (\<lambda>j. j \<noteq> k) cur, [k]]"
  by (simp add: move_index_def Let_def list_update_append)

lemma move_index_next:
  "move_index (length pre) k (pre @ [cur, nxt]) = pre @ [filter (\<lambda>j. j \<noteq> k) cur, nxt @ [k]]"
  by (simp add: move_index_def Let_def nth_append list_update_append)

lemma mset_filter_remove1:
  assumes "distinct cur" "k \<in> set cur"
  shows "mset (filter (\<lambda>j. j \<noteq> k) cur) + {#k#} = mset cur"
proof -
  have "filter (\<lambda>j. j \<noteq> k) cur = remove1 k cur"
    using assms(1) by (simp add: distinct_remove1_removeAll removeAll_filter_not_eq) (metis)
  then show ?thesis using assms(2) by simp
qed


lemma move_index_shape:
  "length rest \<le> 1 \<Longrightarrow>
     move_index (length pre) k (pre @ cur # rest) = pre @ [filter (\<lambda>j. j \<noteq> k) cur, concat rest @ [k]]"
proof (cases rest)
  case Nil
  then show ?thesis using move_index_last [of pre k cur] by simp
next
  case (Cons n ns)
  assume "length rest \<le> 1"
  then have "ns = []" using Cons by simp
  then show ?thesis using Cons move_index_next [of pre k cur n] by simp
qed

text \<open>A group is free of conflicts when every entry of its sub-matrix reaches the threshold.\<close>

definition uncorrelated :: "(nat \<Rightarrow> nat \<Rightarrow> real) \<Rightarrow> real \<Rightarrow> nat list \<Rightarrow> bool" where
  "uncorrelated M threshold grp = (\<forall>i \<in> set grp. \<forall>j \<in> set grp. threshold \<le> M i j)"

lemma array_min_uncorrelated:
  assumes "array_min (ix_entries M grp) = Inr m" "\<not> m < threshold"
  shows "uncorrelated M threshold grp"
  unfolding uncorrelated_def
proof (intro ballI)
  fix i j assume "i \<in> set grp" "j \<in> set grp"
  then have "M i j \<in> set (ix_entries M grp)"
    by (auto simp: set_ix_entries)
  then have "m \<le> M i j" using assms(1) array_min_entries by blast
  then show "threshold \<le> M i j" using assms(2) by simp
qed

lemma inner_loop_partial:
  assumes "inner_loop M threshold g groups = Inr groups'"
    and "g = length pre" "groups = pre @ cur # rest" "length rest \<le> 1"
    and "distinct (cur @ concat rest)"
  shows "\<exists>cur' rest'. groups' = pre @ cur' # rest' \<and> length rest' \<le> 1
           \<and> mset (cur' @ concat rest') = mset (cur @ concat rest)
           \<and> cur' \<noteq> [] \<and> uncorrelated M threshold cur'
           \<and> (length rest = 1 \<and> concat rest \<noteq> [] \<longrightarrow> length rest' = 1 \<and> concat rest' \<noteq> [])"
  using assms
proof (induction M threshold g groups arbitrary: cur rest rule: inner_loop.induct)
  case (1 M threshold g groups)
  have g: "g < length groups" "groups ! g = cur"
    using "1.prems" by (simp_all add: nth_append)
  from "1.prems"(1) g obtain m where m: "array_min (ix_entries M cur) = Inr m"
    by (subst (asm) inner_loop.simps) (auto split: sum.splits)
  show ?case
  proof (cases "m < threshold")
    case True
    with "1.prems"(1) g m obtain k where k: "idx2move_of M cur m = Inr k"
      and r: "inner_loop M threshold g (move_index g k groups) = Inr groups'"
      by (subst (asm) inner_loop.simps) (auto split: sum.splits)
    let ?cur = "filter (\<lambda>j. j \<noteq> k) cur"
    let ?rest = "[concat rest @ [k]]"
    have kin: "k \<in> set cur" using k by (rule idx2move_of_member)
    have shape: "move_index g k groups = pre @ ?cur # ?rest"
      using "1.prems" move_index_shape [of rest pre k cur] by simp
    have dist: "distinct (?cur @ concat ?rest)"
      using "1.prems"(5) kin by auto
    have ms: "mset (?cur @ concat ?rest) = mset (cur @ concat rest)"
      using mset_filter_remove1 [of cur k] "1.prems"(5) kin by (simp add: add.commute add.left_commute)
    have "\<exists>cur' rest'. groups' = pre @ cur' # rest' \<and> length rest' \<le> 1
           \<and> mset (cur' @ concat rest') = mset (?cur @ concat ?rest)
           \<and> cur' \<noteq> [] \<and> uncorrelated M threshold cur'
           \<and> (length ?rest = 1 \<and> concat ?rest \<noteq> [] \<longrightarrow> length rest' = 1 \<and> concat rest' \<noteq> [])"
      using g m True k r "1.prems"(2) shape dist
      by (intro "1.IH" [of m k ?cur ?rest]) simp_all
    then show ?thesis using ms by (metis One_nat_def Suc_le_eq length_Cons list.size(3) order.refl le_antisym snoc_eq_iff_butlast concat.simps append_Nil2 zero_less_one)
  next
    case False
    with "1.prems"(1) g m have "groups' = groups"
      by (subst (asm) inner_loop.simps) auto
    moreover have "cur \<noteq> []" using m by (rule array_min_Inr_nonempty)
    moreover have "uncorrelated M threshold cur" using m False by (rule array_min_uncorrelated)
    ultimately show ?thesis using "1.prems" by auto
  qed
qed


lemma ix_entries_single: "ix_entries M [k] = [M k k]"
  by (simp add: ix_entries_def ix_pairs_def)

lemma filter_neq_empty_distinct:
  assumes "distinct cur" "k \<in> set cur" "filter (\<lambda>j. j \<noteq> k) cur = []"
  shows "cur = [k]"
proof -
  have "set cur \<subseteq> {k}" using assms(3) by (auto simp: filter_empty_conv)
  then have "set cur = {k}" using assms(2) by auto
  then show ?thesis using assms(1)
    by (metis distinct.simps(2) empty_iff insert_iff list.exhaust list.set_intros(1) list.set_intros(2) set_empty)
qed

lemma inner_loop_total:
  assumes "g = length pre" "groups = pre @ cur # rest" "length rest \<le> 1"
    and "distinct cur" "cur \<noteq> []" "\<forall>k. threshold \<le> M k k"
  shows "\<exists>groups'. inner_loop M threshold g groups = Inr groups'"
  using assms
proof (induction M threshold g groups arbitrary: cur rest rule: inner_loop.induct)
  case (1 M threshold g groups)
  have g: "g < length groups" "groups ! g = cur"
    using "1.prems" by (simp_all add: nth_append)
  have "ix_entries M cur \<noteq> []"
    using "1.prems"(5) by (cases cur) (simp_all add: ix_entries_def ix_pairs_def)
  then obtain m where m: "array_min (ix_entries M cur) = Inr m"
    using array_min_nonempty by blast
  show ?case
  proof (cases "m < threshold")
    case True
    obtain k where k: "idx2move_of M cur m = Inr k"
      using idx2move_of_total [OF m] by blast
    let ?cur = "filter (\<lambda>j. j \<noteq> k) cur"
    let ?rest = "[concat rest @ [k]]"
    have kin: "k \<in> set cur" using k by (rule idx2move_of_member)
    have shape: "move_index g k groups = pre @ ?cur # ?rest"
      using "1.prems" move_index_shape [of rest pre k cur] by simp
    have ne: "?cur \<noteq> []"
    proof
      assume "?cur = []"
      then have "cur = [k]" using "1.prems"(4) kin by (intro filter_neq_empty_distinct)
      then have "m = M k k" using m by (simp add: ix_entries_single array_min_def)
      then show False using True "1.prems"(6) by (simp add: not_less [symmetric])
    qed
    have "\<exists>groups'. inner_loop M threshold g (move_index g k groups) = Inr groups'"
      using g m True k "1.prems"(1,4,6) shape ne
      by (intro "1.IH" [of m k ?cur ?rest]) simp_all
    then show ?thesis using g m True k
      by (subst inner_loop.simps) simp
  next
    case False
    then show ?thesis using g m by (subst inner_loop.simps) simp
  qed
qed

lemma outer_loop_partial:
  assumes "outer_loop M threshold g groups = Inr groups'"
    and "g = length pre" "groups = pre @ [cur]"
    and "distinct (concat groups)" "\<forall>grp \<in> set pre. grp \<noteq> [] \<and> uncorrelated M threshold grp"
  shows "mset (concat groups') = mset (concat groups)
       \<and> (\<forall>grp \<in> set groups'. grp \<noteq> [] \<and> uncorrelated M threshold grp)"
  using assms
proof (induction M threshold g groups arbitrary: pre cur rule: outer_loop.induct)
  case (1 M threshold g groups)
  have g: "g < length groups" "groups ! g = cur"
    using "1.prems" by (simp_all add: nth_append)
  from "1.prems"(1) g obtain m where m: "array_min (ix_entries M cur) = Inr m"
    by (subst (asm) outer_loop.simps) (auto split: sum.splits)
  show ?case
  proof (cases "m < threshold")
    case True
    with "1.prems"(1) g m obtain gs where gs: "inner_loop M threshold g groups = Inr gs"
      and r: "outer_loop M threshold (g + 1) gs = Inr groups'"
      by (subst (asm) outer_loop.simps) (auto split: sum.splits)
    from True g m gs obtain k where k: "idx2move_of M cur m = Inr k"
      and gs': "inner_loop M threshold g (move_index g k groups) = Inr gs"
      by (subst (asm) inner_loop.simps) (auto split: sum.splits)
    let ?cur = "filter (\<lambda>j. j \<noteq> k) cur"
    let ?rest = "[[k]]"
    have kin: "k \<in> set cur" using k by (rule idx2move_of_member)
    have dc: "distinct cur" using "1.prems"(3,4) by simp
    have shape: "move_index g k groups = pre @ ?cur # ?rest"
      using "1.prems"(2,3) move_index_last [of pre k cur] by simp
    have dist: "distinct (?cur @ concat ?rest)"
      using dc kin by auto
    obtain cur' rest' where res: "gs = pre @ cur' # rest'" "length rest' \<le> 1"
      "mset (cur' @ concat rest') = mset (?cur @ concat ?rest)"
      "cur' \<noteq> []" "uncorrelated M threshold cur'"
      "length rest' = 1 \<and> concat rest' \<noteq> []"
      using inner_loop_partial [OF gs' "1.prems"(2) shape _ dist] by auto
    then obtain nxt where nxt: "rest' = [nxt]"
      by (cases rest') auto
    have ms: "mset (cur' @ nxt) = mset cur"
      using res(3) nxt mset_filter_remove1 [OF dc kin] by simp
    have shape2: "gs = (pre @ [cur']) @ [nxt]" using res(1) nxt by simp
    have ms2: "mset (concat gs) = mset (concat groups)"
      using shape2 ms "1.prems"(3) by simp
    have "distinct (concat gs) = distinct (concat groups)"
      using ms2 by (metis distinct_count_atmost_1 set_mset_mset count_mset mset_eq_setD)
    then have d2: "distinct (concat gs)" using "1.prems"(4) by simp
    have pre2: "\<forall>grp \<in> set (pre @ [cur']). grp \<noteq> [] \<and> uncorrelated M threshold grp"
      using "1.prems"(5) res(4,5) by auto
    have "mset (concat groups') = mset (concat gs)
       \<and> (\<forall>grp \<in> set groups'. grp \<noteq> [] \<and> uncorrelated M threshold grp)"
      using g m True gs r "1.prems"(2) shape2 d2 pre2
      by (intro "1.IH" [of m gs "pre @ [cur']" nxt]) simp_all
    then show ?thesis using ms2 by simp
  next
    case False
    with "1.prems"(1) g m have "groups' = groups"
      by (subst (asm) outer_loop.simps) auto
    moreover have "cur \<noteq> []" using m by (rule array_min_Inr_nonempty)
    moreover have "uncorrelated M threshold cur" using m False by (rule array_min_uncorrelated)
    ultimately show ?thesis using "1.prems" by auto
  qed
qed


lemma outer_loop_total:
  assumes "g = length pre" "groups = pre @ [cur]"
    and "distinct cur" "cur \<noteq> []" "\<forall>k. threshold \<le> M k k"
  shows "\<exists>groups'. outer_loop M threshold g groups = Inr groups'"
  using assms
proof (induction M threshold g groups arbitrary: pre cur rule: outer_loop.induct)
  case (1 M threshold g groups)
  have g: "g < length groups" "groups ! g = cur"
    using "1.prems" by (simp_all add: nth_append)
  have "ix_entries M cur \<noteq> []"
    using "1.prems"(4) by (cases cur) (simp_all add: ix_entries_def ix_pairs_def)
  then obtain m where m: "array_min (ix_entries M cur) = Inr m"
    using array_min_nonempty by blast
  show ?case
  proof (cases "m < threshold")
    case True
    obtain gs where gs: "inner_loop M threshold g groups = Inr gs"
      using inner_loop_total [of g pre groups cur "[]" threshold M] "1.prems" by auto
    from True g m gs obtain k where k: "idx2move_of M cur m = Inr k"
      and gs': "inner_loop M threshold g (move_index g k groups) = Inr gs"
      by (subst (asm) inner_loop.simps) (auto split: sum.splits)
    let ?cur = "filter (\<lambda>j. j \<noteq> k) cur"
    let ?rest = "[[k]]"
    have kin: "k \<in> set cur" using k by (rule idx2move_of_member)
    have shape: "move_index g k groups = pre @ ?cur # ?rest"
      using "1.prems"(1,2) move_index_last [of pre k cur] by simp
    have dist: "distinct (?cur @ concat ?rest)"
      using "1.prems"(3) kin by auto
    obtain cur' rest' where res: "gs = pre @ cur' # rest'" "length rest' \<le> 1"
      "mset (cur' @ concat rest') = mset (?cur @ concat ?rest)"
      "length rest' = 1 \<and> concat rest' \<noteq> []"
      using inner_loop_partial [OF gs' "1.prems"(1) shape _ dist] by auto
    then obtain nxt where nxt: "rest' = [nxt]" "nxt \<noteq> []"
      by (cases rest') auto
    have "distinct (cur' @ concat rest')"
      using res(3) dist by (metis distinct_count_atmost_1 set_mset_mset count_mset mset_eq_setD)
    then have dn: "distinct nxt" using nxt by simp
    have shape2: "gs = (pre @ [cur']) @ [nxt]" using res(1) nxt by simp
    have "\<exists>groups'. outer_loop M threshold (g + 1) gs = Inr groups'"
      using g m True gs "1.prems"(1,5) shape2 dn nxt(2)
      by (intro "1.IH" [of m gs "pre @ [cur']" nxt]) simp_all
    then show ?thesis using g m True gs
      by (subst outer_loop.simps) simp
  next
    case False
    then show ?thesis using g m by (subst outer_loop.simps) simp
  qed
qed


lemma initializeGroups_partial:
  assumes "initializeGroups drifter_positions xdim ydim r_factor dx0 = Inr groups"
  shows "mset (concat groups) = mset [0 ..< length drifter_positions]
       \<and> (\<forall>grp \<in> set groups. grp \<noteq> []
            \<and> uncorrelated (obs_dist_mat xdim ydim drifter_positions) (2.0 * 1.5 * r_factor * dx0) grp)"
  using outer_loop_partial [of "obs_dist_mat xdim ydim drifter_positions" "2.0 * 1.5 * r_factor * dx0"
      0 "[[0 ..< length drifter_positions]]" groups "[]" "[0 ..< length drifter_positions]"] assms
  by (simp add: initializeGroups_def Let_def)

lemma initializeGroups_total:
  assumes "drifter_positions \<noteq> []" "2.0 * 1.5 * r_factor * dx0 \<le> sqrt (xdim\<^sup>2 + ydim\<^sup>2)"
  shows "\<exists>groups. initializeGroups drifter_positions xdim ydim r_factor dx0 = Inr groups"
  using outer_loop_total [of 0 "[]" "[[0 ..< length drifter_positions]]" "[0 ..< length drifter_positions]"
      "2.0 * 1.5 * r_factor * dx0" "obs_dist_mat xdim ydim drifter_positions"] assms
  by (simp add: initializeGroups_def Let_def obs_dist_mat_def)

lemma initializeGroups_empty:
  "initializeGroups [] xdim ydim r_factor dx0 = Inl ValueError"
  by (simp add: initializeGroups_def Let_def outer_loop.simps ix_entries_def ix_pairs_def array_min_def)

lemma length_le_concat:
  "\<forall>grp \<in> set groups. grp \<noteq> [] \<Longrightarrow> length groups \<le> length (concat groups)"
proof (induction groups)
  case Nil
  then show ?case by simp
next
  case (Cons a groups)
  then have "a \<noteq> []" by simp
  moreover have "length groups \<le> length (concat groups)" using Cons by simp
  ultimately show ?case by (cases a) simp_all
qed

lemma move_index_shrinks:
  assumes "g < length groups" "k \<in> set (groups ! g)"
  shows "length (move_index g k groups ! g) < length (groups ! g)
       \<and> g + 1 < length (move_index g k groups)
       \<and> last (move_index g k groups ! (g + 1)) = k"
proof -
  have "length (filter (\<lambda>j. j \<noteq> k) (groups ! g)) < length (groups ! g)"
    using assms(2) by (simp add: length_filter_less)
  then show ?thesis using assms(1)
    by (auto simp: move_index_def Let_def nth_append)
qed

text \<open>
  Claim C10. Under the precondition that the threshold does not exceed the value placed
  on the diagonal of the distance matrix, \<^verbatim>\<open>initializeGroups\<close> terminates for every
  list of observation positions: with at least one observation it returns groups, none
  of them empty and no more of them than observations; with no observation the first
  \<^verbatim>\<open>.min()\<close> raises \<^verbatim>\<open>ValueError\<close>. Each pass of the inner loop strictly shrinks
  the current group and puts the moved index at the end of the next group, and the
  sub-matrix of a singleton group holds the diagonal value only.
\<close>

theorem initializeGroups_terminates:
  assumes "2.0 * 1.5 * r_factor * dx0 \<le> sqrt (xdim\<^sup>2 + ydim\<^sup>2)"
  shows "(drifter_positions = [] \<longrightarrow>
            initializeGroups drifter_positions xdim ydim r_factor dx0 = Inl ValueError)
       \<and> (drifter_positions \<noteq> [] \<longrightarrow>
            (\<exists>groups. initializeGroups drifter_positions xdim ydim r_factor dx0 = Inr groups
               \<and> length groups \<le> length drifter_positions
               \<and> (\<forall>grp \<in> set groups. grp \<noteq> [])))
       \<and> (\<forall>g groups k. g < length groups \<and> k \<in> set (groups ! g) \<longrightarrow>
              length (move_index g k groups ! g) < length (groups ! g)
              \<and> last (move_index g k groups ! (g + 1)) = k)
       \<and> (\<forall>k. array_min (ix_entries (obs_dist_mat xdim ydim drifter_positions) [k])
              = Inr (sqrt (xdim\<^sup>2 + ydim\<^sup>2)))"
proof -
  have a: "drifter_positions \<noteq> [] \<longrightarrow>
      (\<exists>groups. initializeGroups drifter_positions xdim ydim r_factor dx0 = Inr groups
         \<and> length groups \<le> length drifter_positions
         \<and> (\<forall>grp \<in> set groups. grp \<noteq> []))"
  proof
    assume ne: "drifter_positions \<noteq> []"
    then obtain groups where r: "initializeGroups drifter_positions xdim ydim r_factor dx0 = Inr groups"
      using initializeGroups_total [OF ne assms] by blast
    note p = initializeGroups_partial [OF r]
    have ne': "\<forall>grp \<in> set groups. grp \<noteq> []" using p by simp
    have "length (concat groups) = length [0 ..< length drifter_positions]"
      using p by (metis size_mset)
    then have "length groups \<le> length drifter_positions"
      using length_le_concat [OF ne'] by simp
    then show "\<exists>groups. initializeGroups drifter_positions xdim ydim r_factor dx0 = Inr groups
         \<and> length groups \<le> length drifter_positions \<and> (\<forall>grp \<in> set groups. grp \<noteq> [])"
      using r ne' by blast
  qed
  have b: "\<forall>k. array_min (ix_entries (obs_dist_mat xdim ydim drifter_positions) [k])
      = Inr (sqrt (xdim\<^sup>2 + ydim\<^sup>2))"
    by (simp add: ix_entries_single array_min_def obs_dist_mat_def)
  have c: "\<forall>g groups k. g < length groups \<and> k \<in> set (groups ! g) \<longrightarrow>
      length (move_index g k groups ! g) < length (groups ! g)
      \<and> last (move_index g k groups ! (g + 1)) = k"
    using move_index_shrinks by simp
  have d: "drifter_positions = [] \<longrightarrow>
      initializeGroups drifter_positions xdim ydim r_factor dx0 = Inl ValueError"
    by (simp add: initializeGroups_empty)
  show ?thesis
    by (intro conjI d a c b)
qed

lemma sqrt_200_bounds: "3 \<le> sqrt 200" "sqrt 200 < 45"
proof -
  show "3 \<le> sqrt 200" by (rule real_le_rsqrt) simp
  have "sqrt 200 < sqrt 2025" by (rule real_sqrt_less_mono) simp
  moreover have "sqrt 2025 = 45" by (rule real_sqrt_unique) simp_all
  ultimately show "sqrt 200 < 45" by simp
qed

theorem initializeGroups_terminates_witness:
  "2.0 * 1.5 * 1 * 1 \<le> sqrt (10\<^sup>2 + 10\<^sup>2)
   \<and> (\<exists>groups. initializeGroups [(1, 1), (2, 1)] 10 10 1 1 = Inr groups \<and> length groups \<le> 2)
   \<and> initializeGroups [] 10 10 1 1 = Inl ValueError"
proof -
  have h: "2.0 * 1.5 * 1 * 1 \<le> sqrt ((10::real)\<^sup>2 + 10\<^sup>2)"
    using sqrt_200_bounds(1) by simp
  note t = initializeGroups_terminates [OF h]
  have "\<exists>groups. initializeGroups [(1, 1), (2, 1)] 10 10 1 1 = Inr groups
      \<and> length groups \<le> length [(1::real, 1::real), (2, 1)] \<and> (\<forall>grp \<in> set groups. grp \<noteq> [])"
    using t [of "[(1, 1), (2, 1)]", THEN conjunct2, THEN conjunct1] by simp
  then have "\<exists>groups. initializeGroups [(1, 1), (2, 1)] 10 10 1 1 = Inr groups \<and> length groups \<le> 2"
    by fastforce
  moreover have "initializeGroups [] 10 10 1 1 = Inl ValueError"
    using t [of "[]", THEN conjunct1] by simp
  ultimately show ?thesis using h by simp
qed


text \<open>
  Claim C1 at a concrete input: one drifter at \<open>(5, 5)\<close> on a 10 by 10 grid of unit cells
  with the default \<^verbatim>\<open>r_factor = 15\<close>. The threshold 45 exceeds the diagonal value
  \<open>sqrt 200\<close>, the only index is moved out of its group, and \<^verbatim>\<open>.min()\<close> of the empty
  sub-matrix raises \<^verbatim>\<open>ValueError\<close>: no partition is returned.
\<close>

theorem initializeGroups_large_threshold_raises:
  "sqrt (10\<^sup>2 + 10\<^sup>2) < 2.0 * 1.5 * 15 * 1
   \<and> initializeGroups [(5, 5)] 10 10 15 1 = Inl ValueError"
proof -
  let ?M = "obs_dist_mat 10 10 [(5, 5)]"
  have m: "array_min (ix_entries ?M [0]) = Inr (sqrt 200)"
    by (simp add: ix_entries_single array_min_def obs_dist_mat_def)
  have k: "idx2move_of ?M [0] (sqrt 200) = Inr 0"
    by (simp add: idx2move_of_def ix_pairs_def obs_dist_mat_def)
  have mv: "move_index 0 0 [[0]] = [[], [0]]"
    by (simp add: move_index_def)
  have e: "array_min (ix_entries ?M []) = Inl ValueError"
    by (simp add: ix_entries_def ix_pairs_def array_min_def)
  have i2: "inner_loop ?M 45 0 [[], [0]] = Inl ValueError"
    by (subst inner_loop.simps) (simp add: e)
  have i1: "inner_loop ?M 45 0 [[0]] = Inl ValueError"
    by (subst inner_loop.simps) (simp add: m k mv i2 sqrt_200_bounds)
  have "outer_loop ?M 45 0 [[0]] = Inl ValueError"
    by (subst outer_loop.simps) (simp add: m i1 sqrt_200_bounds)
  then have "initializeGroups [(5, 5)] 10 10 15 1 = Inl ValueError"
    by (simp add: initializeGroups_def)
  then show ?thesis using sqrt_200_bounds(2) by simp
qed

text \<open>
  With at least one observation and a threshold that does not exceed the diagonal value,
  \<^verbatim>\<open>initializeGroups\<close> returns groups in which every observation index occurs exactly
  once, and any two distinct members of one group are at least the threshold apart.
\<close>

theorem initializeGroups_partition:
  assumes "drifter_positions \<noteq> []" "2.0 * 1.5 * r_factor * dx0 \<le> sqrt (xdim\<^sup>2 + ydim\<^sup>2)"
  shows "\<exists>groups. initializeGroups drifter_positions xdim ydim r_factor dx0 = Inr groups
           \<and> mset (concat groups) = mset [0 ..< length drifter_positions]
           \<and> (\<forall>grp \<in> set groups. \<forall>i \<in> set grp. \<forall>j \<in> set grp. i \<noteq> j \<longrightarrow>
                 2.0 * 1.5 * r_factor * dx0
                   \<le> periodic_distance xdim ydim (drifter_positions ! i) (drifter_positions ! j))"
proof -
  obtain groups where r: "initializeGroups drifter_positions xdim ydim r_factor dx0 = Inr groups"
    using initializeGroups_total [OF assms] by blast
  note p = initializeGroups_partial [OF r]
  have "\<forall>grp \<in> set groups. \<forall>i \<in> set grp. \<forall>j \<in> set grp. i \<noteq> j \<longrightarrow>
      2.0 * 1.5 * r_factor * dx0
        \<le> periodic_distance xdim ydim (drifter_positions ! i) (drifter_positions ! j)"
  proof (intro ballI impI)
    fix grp i j assume a: "grp \<in> set groups" "i \<in> set grp" "j \<in> set grp" "i \<noteq> j"
    then have "uncorrelated (obs_dist_mat xdim ydim drifter_positions) (2.0 * 1.5 * r_factor * dx0) grp"
      using p by simp
    then have "2.0 * 1.5 * r_factor * dx0 \<le> obs_dist_mat xdim ydim drifter_positions i j"
      using a(2,3) by (simp add: uncorrelated_def)
    then show "2.0 * 1.5 * r_factor * dx0
        \<le> periodic_distance xdim ydim (drifter_positions ! i) (drifter_positions ! j)"
      using a(4) by (simp add: obs_dist_mat_def)
  qed
  then show ?thesis using r p by blast
qed

theorem initializeGroups_partition_witness:
  "[(1::real, 1::real), (2, 1)] \<noteq> [] \<and> 2.0 * 1.5 * 1 * 1 \<le> sqrt (10\<^sup>2 + 10\<^sup>2)
   \<and> (\<exists>groups. initializeGroups [(1, 1), (2, 1)] 10 10 1 1 = Inr groups
          \<and> mset (concat groups) = mset [0 ..< length [(1::real, 1::real), (2, 1)]])"
proof -
  have h: "2.0 * 1.5 * 1 * 1 \<le> sqrt ((10::real)\<^sup>2 + 10\<^sup>2)"
    using sqrt_200_bounds(1) by simp
  have n: "[(1::real, 1::real), (2, 1)] \<noteq> []" by simp
  obtain groups where "initializeGroups [(1, 1), (2, 1)] 10 10 1 1 = Inr groups"
    "mset (concat groups) = mset [0 ..< length [(1::real, 1::real), (2, 1)]]"
    using initializeGroups_partition [OF n h] by blast
  then have "\<exists>groups. initializeGroups [(1, 1), (2, 1)] 10 10 1 1 = Inr groups
          \<and> mset (concat groups) = mset [0 ..< length [(1::real, 1::real), (2, 1)]]"
    by (intro exI [of _ groups] conjI)
  then show ?thesis using h n by blast
qed

subsection \<open>The ensemble and the filter object\<close>

text \<open>
  The ensemble and its particles belong to the simulator, whose code is outside this
  module. The records hold what \<^verbatim>\<open>LEnKFOcean\<close> reads from them: attributes as fields,
  and the values of the getters \<^verbatim>\<open>getNumParticles()\<close>, \<^verbatim>\<open>getNumDrifters()\<close>,
  \<^verbatim>\<open>getNumActiveParticles()\<close>, \<^verbatim>\<open>getObservationCov()\<close>, \<^verbatim>\<open>observeTrueState()\<close>
  and \<^verbatim>\<open>observeTrueDrifters()\<close> as fields too. A grid field is a list of rows.
\<close>

datatype ObservationType = DrifterPosition | UnderlyingFlow | DirectUnderlyingFlow | StaticBuoys

type_synonym field = "real list list"

record particle =
  p_ny :: nat
  p_nx :: nat
  p_ghost_cells_y :: nat
  p_ghost_cells_x :: nat
  p_dx :: real
  p_eta :: field
  p_hu :: field
  p_hv :: field

record ensemble =
  ens_particles :: "particle list"
  ens_particlesActive :: "bool list"
  ens_numParticles :: nat
  ens_numDrifters :: nat
  ens_numActiveParticles :: nat
  ens_dx :: real
  ens_dy :: real
  ens_nx :: nat
  ens_ny :: nat
  ens_observation_type :: ObservationType
  ens_trueState :: "(real \<times> real \<times> real \<times> real) list"
  ens_trueDrifters :: "vec2 list"
  ens_observationCov :: "real list list"
  ens_compensate_for_eta :: bool
  ens_mean_depth :: real

text \<open>
  The attributes of a \<^verbatim>\<open>LEnKFOcean\<close> object. \<^verbatim>\<open>N_e_active\<close> does not exist before the
  first call of \<^verbatim>\<open>_prepare_LEnKF\<close> with an ensemble, hence the option.
\<close>

record lenkf =
  self_ensemble :: ensemble
  self_N_e :: nat
  self_N_d :: nat
  self_n_i :: nat
  self_n_j :: nat
  self_ghost_cells_y :: nat
  self_ghost_cells_x :: nat
  self_inflation_factor :: real
  self_scale_w :: real
  self_r_factor :: real
  self_method :: string
  self_N_e_active :: "nat option"

text \<open>
  \<^verbatim>\<open>__init__\<close>. \<^verbatim>\<open>particles[0]\<close> and \<^verbatim>\<open>particles[-1]\<close> raise \<^verbatim>\<open>IndexError\<close> on an
  empty list; the assertion on the method comes last. The caches \<^verbatim>\<open>W_loc\<close>,
  \<^verbatim>\<open>all_Ls\<close> and \<^verbatim>\<open>groups\<close> start as \<^verbatim>\<open>None\<close> and are kept apart from this record.
\<close>

definition init_LEnKF :: "ensemble \<Rightarrow> real \<Rightarrow> real \<Rightarrow> string \<Rightarrow> error + lenkf" where
  "init_LEnKF ens relaxation_factor inflation_factor method =
     (if ens_particles ens = [] then Inl IndexError
      else if method \<notin> {''SEnKF'', ''ETKF''} then Inl (AssertionError ''Method not supported'')
      else Inr \<lparr>
        self_ensemble = ens,
        self_N_e = ens_numParticles ens,
        self_N_d = ens_numDrifters ens,
        self_n_i = p_ny (hd (ens_particles ens)) + 2 * p_ghost_cells_y (last (ens_particles ens)),
        self_n_j = p_nx (hd (ens_particles ens)) + 2 * p_ghost_cells_x (last (ens_particles ens)),
        self_ghost_cells_y = p_ghost_cells_y (last (ens_particles ens)),
        self_ghost_cells_x = p_ghost_cells_x (last (ens_particles ens)),
        self_inflation_factor = inflation_factor,
        self_scale_w = relaxation_factor,
        self_r_factor = 15.0,
        self_method = method,
        self_N_e_active = None \<rparr>)"


text \<open>
  A small ensemble for concrete evaluation: three particles on a 2 by 2 grid without
  ghost cells, one drifter in the middle of the domain.
\<close>

definition demo_particle :: particle where
  "demo_particle = \<lparr> p_ny = 2, p_nx = 2, p_ghost_cells_y = 0, p_ghost_cells_x = 0, p_dx = 1,
     p_eta = [[0, 0], [0, 0]], p_hu = [[1, 1], [1, 1]], p_hv = [[0, 0], [0, 0]] \<rparr>"

definition demo_ensemble :: ensemble where
  "demo_ensemble = \<lparr>
     ens_particles = [demo_particle, demo_particle, demo_particle],
     ens_particlesActive = [True, True, True],
     ens_numParticles = 3, ens_numDrifters = 1, ens_numActiveParticles = 3,
     ens_dx = 1, ens_dy = 1, ens_nx = 2, ens_ny = 2,
     ens_observation_type = UnderlyingFlow,
     ens_trueState = [(1, 1, 1, 0)],
     ens_trueDrifters = [(1, 1)],
     ens_observationCov = [[1, 0], [0, 1]],
     ens_compensate_for_eta = False,
     ens_mean_depth = 10 \<rparr>"

text \<open>
  The filter object built from \<open>demo_ensemble\<close>, before and after a first preparation
  with that ensemble, and two variants of the ensemble: one with the third particle
  inactive, one with a second drifter.
\<close>

definition demo_lenkf_new :: lenkf where
  "demo_lenkf_new = \<lparr> self_ensemble = demo_ensemble, self_N_e = 3, self_N_d = 1,
     self_n_i = 2, self_n_j = 2, self_ghost_cells_y = 0, self_ghost_cells_x = 0,
     self_inflation_factor = 1, self_scale_w = 1, self_r_factor = 15.0,
     self_method = ''SEnKF'', self_N_e_active = None \<rparr>"

definition demo_lenkf :: lenkf where
  "demo_lenkf = demo_lenkf_new \<lparr> self_N_e_active := Some 3 \<rparr>"



subsection \<open>Arrays for the local analysis\<close>

text \<open>
  A two-dimensional numpy array is a list of rows, a one-dimensional one a list. Arrays
  with a dimension of size zero are not distinguished by their other dimension in this
  representation; every statement below is about arrays with at least one row and one
  column. Operations whose shapes do not fit raise \<^verbatim>\<open>ValueError\<close>, as numpy does.
\<close>

type_synonym matrix = "real list list"

definition bindE :: "error + 'a \<Rightarrow> ('a \<Rightarrow> error + 'b) \<Rightarrow> error + 'b" where
  "bindE m f = (case m of Inl e \<Rightarrow> Inl e | Inr x \<Rightarrow> f x)"

definition nrows :: "matrix \<Rightarrow> nat" where
  "nrows M = length M"

definition ncols :: "matrix \<Rightarrow> nat" where
  "ncols M = (case M of [] \<Rightarrow> 0 | r # _ \<Rightarrow> length r)"

text \<open>\<open>mat r c M\<close>: the array \<open>M\<close> has shape \<open>(r, c)\<close>.\<close>

definition mat :: "nat \<Rightarrow> nat \<Rightarrow> matrix \<Rightarrow> bool" where
  "mat r c M = (length M = r \<and> list_all (\<lambda>row. length row = c) M)"

definition column :: "matrix \<Rightarrow> nat \<Rightarrow> real list" where
  "column M j = map (\<lambda>row. row ! j) M"

text \<open>\<^verbatim>\<open>M.T\<close>\<close>

definition transpose_m :: "matrix \<Rightarrow> matrix" where
  "transpose_m M = map (column M) [0 ..< ncols M]"

definition dot :: "real list \<Rightarrow> real list \<Rightarrow> real" where
  "dot xs ys = sum_list (map2 (*) xs ys)"

text \<open>\<^verbatim>\<open>A @ B\<close> for two-dimensional operands, and for a matrix and a vector.\<close>

definition matmul :: "matrix \<Rightarrow> matrix \<Rightarrow> error + matrix" where
  "matmul A B =
     (if ncols A \<noteq> nrows B then Inl ValueError
      else Inr (map (\<lambda>row. map (\<lambda>j. dot row (column B j)) [0 ..< ncols B]) A))"

definition matvec :: "matrix \<Rightarrow> real list \<Rightarrow> error + real list" where
  "matvec A v =
     (if ncols A \<noteq> length v then Inl ValueError
      else Inr (map (\<lambda>row. dot row v) A))"

text \<open>\<^verbatim>\<open>c * M\<close> for a scalar \<open>c\<close>.\<close>

definition scale :: "real \<Rightarrow> matrix \<Rightarrow> matrix" where
  "scale c M = map (map (\<lambda>x. c * x)) M"

text \<open>
  Broadcasting of numpy: two dimensions fit when they are equal or one of them is 1;
  the dimension of size 1 is repeated.
\<close>

definition bc_dim :: "nat \<Rightarrow> nat \<Rightarrow> error + nat" where
  "bc_dim m n = (if m = n then Inr m else if m = 1 then Inr n else if n = 1 then Inr m else Inl ValueError)"

definition bc_get :: "'a list \<Rightarrow> nat \<Rightarrow> 'a" where
  "bc_get xs i = (if length xs = 1 then xs ! 0 else xs ! i)"

definition bc_vec :: "(real \<Rightarrow> real \<Rightarrow> real) \<Rightarrow> real list \<Rightarrow> real list \<Rightarrow> error + real list" where
  "bc_vec f xs ys =
     bindE (bc_dim (length xs) (length ys)) (\<lambda>n.
       Inr (map (\<lambda>i. f (bc_get xs i) (bc_get ys i)) [0 ..< n]))"

definition bc_mat :: "(real \<Rightarrow> real \<Rightarrow> real) \<Rightarrow> matrix \<Rightarrow> matrix \<Rightarrow> error + matrix" where
  "bc_mat f A B =
     bindE (bc_dim (nrows A) (nrows B)) (\<lambda>r.
     bindE (bc_dim (ncols A) (ncols B)) (\<lambda>c.
       Inr (map (\<lambda>i. map (\<lambda>j. f (bc_get (bc_get A i) j) (bc_get (bc_get B i) j)) [0 ..< c]) [0 ..< r])))"

text \<open>\<^verbatim>\<open>np.eye(n)\<close>, \<^verbatim>\<open>np.diag(v)\<close>, \<^verbatim>\<open>np.outer(u, v)\<close>, \<^verbatim>\<open>np.trace(M)\<close>.\<close>

definition eye :: "nat \<Rightarrow> matrix" where
  "eye n = map (\<lambda>i. map (\<lambda>j. if i = j then 1 else 0) [0 ..< n]) [0 ..< n]"

definition diag :: "real list \<Rightarrow> matrix" where
  "diag v = map (\<lambda>i. map (\<lambda>j. if i = j then v ! i else 0) [0 ..< length v]) [0 ..< length v]"

definition outer :: "real list \<Rightarrow> real list \<Rightarrow> matrix" where
  "outer u v = map (\<lambda>x. map (\<lambda>y. x * y) v) u"

definition trace :: "matrix \<Rightarrow> real" where
  "trace M = sum_list (map (\<lambda>i. M ! i ! i) [0 ..< min (nrows M) (ncols M)])"

text \<open>
  \<^verbatim>\<open>scipy.linalg.inv\<close> on the 2 by 2 matrices this module inverts (the observation
  covariance and the innovation covariance of one drifter): a singular matrix raises
  \<^verbatim>\<open>LinAlgError\<close>, another shape \<^verbatim>\<open>ValueError\<close>.
\<close>

definition inv2x2 :: "matrix \<Rightarrow> error + matrix" where
  "inv2x2 M =
     (case M of
        [[a, b], [c, d]] \<Rightarrow>
          if a * d - b * c = 0 then Inl LinAlgError
          else Inr [[d / (a * d - b * c), - b / (a * d - b * c)],
                    [- c / (a * d - b * c), a / (a * d - b * c)]]
      | _ \<Rightarrow> Inl ValueError)"

subsection \<open>The ensemble transform update \<^verbatim>\<open>ETKF_loc\<close>\<close>

text \<open>
  The innovation: \<^verbatim>\<open>y_loc - HX_f_loc_mean\<close> when no \<^verbatim>\<open>D\<close> is passed, and otherwise
  \<^verbatim>\<open>np.average(D, axis=1)\<close>, the mean of each row.
\<close>

definition ETKF_innovation :: "real list \<Rightarrow> real list \<Rightarrow> matrix option \<Rightarrow> error + real list" where
  "ETKF_innovation y_loc HX_f_loc_mean D =
     (case D of
        None \<Rightarrow> bc_vec (-) y_loc HX_f_loc_mean
      | Some D' \<Rightarrow> Inr (map (\<lambda>row. sum_list row / real (length row)) D'))"

text \<open>Reading \<^verbatim>\<open>self.N_e_active\<close> before it was ever set raises \<^verbatim>\<open>AttributeError\<close>.\<close>

definition get_N_e_active :: "lenkf \<Rightarrow> error + nat" where
  "get_N_e_active self = (case self_N_e_active self of None \<Rightarrow> Inl AttributeError | Some n \<Rightarrow> Inr n)"

text \<open>
  The forgetting factor. With \<^verbatim>\<open>inflation_factor == 0.0\<close> the inflation is estimated
  from the innovation; the division by \<^verbatim>\<open>N_e_active - 2\<close> is numpy's, which yields
  \<^verbatim>\<open>inf\<close> rather than an exception for two active particles, so the statements about
  this branch assume more than two.
\<close>

definition ETKF_forgetting_factor :: "lenkf \<Rightarrow> matrix \<Rightarrow> real list \<Rightarrow> error + real" where
  "ETKF_forgetting_factor self Rinv D =
     (if self_inflation_factor self = 0 then
        bindE (matmul Rinv (outer D D)) (\<lambda>RDD.
        bindE (get_N_e_active self) (\<lambda>N_e_active.
          let inflation_factor = sqrt (1 + trace RDD / (real N_e_active - 2))
          in Inr (1 / inflation_factor\<^sup>2)))
      else Inr (1 / (self_inflation_factor self)\<^sup>2))"

text \<open>
  \<^verbatim>\<open>HX_f_loc_pert[:, ensemble.particlesActive]\<close>, where \<^verbatim>\<open>ensemble\<close> is the argument
  of \<^verbatim>\<open>assimilate\<close>: \<^verbatim>\<open>None\<close> has no such attribute, and a boolean mask whose length
  is not the number of columns raises \<^verbatim>\<open>IndexError\<close>.
\<close>

definition active_columns :: "ensemble option \<Rightarrow> matrix \<Rightarrow> error + matrix" where
  "active_columns ensemble M =
     (case ensemble of
        None \<Rightarrow> Inl AttributeError
      | Some ens \<Rightarrow>
          if length (ens_particlesActive ens) \<noteq> ncols M then Inl IndexError
          else Inr (map (\<lambda>row. map fst (filter snd (zip row (ens_particlesActive ens)))) M))"

text \<open>
  The matrix \<open>A = A1 + A2\<close> of the update, returned together with
  \<^verbatim>\<open>HX_f_loc_pert[:,ensemble.particlesActive].T @ Rinv\<close>, which the gain needs again.
\<close>

definition ETKF_A :: "lenkf \<Rightarrow> ensemble option \<Rightarrow> matrix \<Rightarrow> matrix \<Rightarrow> real \<Rightarrow> error + matrix \<times> matrix" where
  "ETKF_A self ensemble HX_f_loc_pert Rinv forgetting_factor =
     bindE (get_N_e_active self) (\<lambda>N_e_active.
     let A1 = scale ((real N_e_active - 1) * forgetting_factor) (eye N_e_active) in
     bindE (active_columns ensemble HX_f_loc_pert) (\<lambda>HXa.
     bindE (matmul (transpose_m HXa) Rinv) (\<lambda>HXaT_Rinv.
     bindE (matmul HXaT_Rinv HXa) (\<lambda>A2.
     bindE (bc_mat (+) A1 A2) (\<lambda>A.
       Inr (A, HXaT_Rinv))))))"

text \<open>
  The analysis perturbations \<^verbatim>\<open>X_f_loc_pert @ V @ np.diag(np.sqrt(1/sigma_inv)) @ V.T\<close>
  from the eigen-decomposition of \<^verbatim>\<open>(1./(self.N_e_active-1)) * A\<close>.
  \<^verbatim>\<open>scipy.linalg.eigh\<close> is a library routine and enters as the parameter \<open>eigh\<close>; it may
  fail. \<^verbatim>\<open>1./(self.N_e_active-1)\<close> is a division of Python numbers and raises
  \<^verbatim>\<open>ZeroDivisionError\<close> for a single active particle. The code does not test the sign
  of the eigenvalues: \<^verbatim>\<open>np.sqrt(1/sigma_inv)\<close> of a value that is not positive is
  \<^verbatim>\<open>nan\<close> or \<^verbatim>\<open>inf\<close> there and an unrelated real here.
\<close>

definition ETKF_transform ::
  "(matrix \<Rightarrow> error + real list \<times> matrix) \<Rightarrow> lenkf \<Rightarrow> matrix \<Rightarrow> matrix \<Rightarrow> error + matrix" where
  "ETKF_transform eigh self A X_f_loc_pert =
     bindE (get_N_e_active self) (\<lambda>N_e_active.
     if N_e_active = 1 then Inl ZeroDivisionError else
     bindE (eigh (scale (1 / (real N_e_active - 1)) A)) (\<lambda>(sigma_inv, V).
     bindE (matmul X_f_loc_pert V) (\<lambda>XV.
     bindE (matmul XV (diag (map (\<lambda>s. sqrt (1 / s)) sigma_inv))) (\<lambda>XVS.
       matmul XVS (transpose_m V)))))"

text \<open>
  The analysis mean and the analysis perturbations, in the order of the source: the
  inverse of the observation covariance, the innovation, the forgetting factor, \<open>A\<close>,
  the gain \<open>K\<close> by \<^verbatim>\<open>np.linalg.solve\<close> (the parameter \<open>solve\<close>, which may fail), the
  mean \<^verbatim>\<open>X_f_loc_mean + K @ D\<close>, and the transform.
\<close>

definition ETKF_analysis ::
  "(matrix \<Rightarrow> matrix \<Rightarrow> error + matrix) \<Rightarrow> (matrix \<Rightarrow> error + real list \<times> matrix) \<Rightarrow>
   lenkf \<Rightarrow> ensemble option \<Rightarrow> real list \<Rightarrow> matrix \<Rightarrow> real list \<Rightarrow> matrix \<Rightarrow> real list \<Rightarrow>
   matrix option \<Rightarrow> error + real list \<times> matrix" where
  "ETKF_analysis solve eigh self ensemble X_f_loc_mean X_f_loc_pert HX_f_loc_mean HX_f_loc_pert y_loc D0 =
     bindE (inv2x2 (ens_observationCov (self_ensemble self))) (\<lambda>Rinv.
     bindE (ETKF_innovation y_loc HX_f_loc_mean D0) (\<lambda>D.
     bindE (ETKF_forgetting_factor self Rinv D) (\<lambda>forgetting_factor.
     bindE (ETKF_A self ensemble HX_f_loc_pert Rinv forgetting_factor) (\<lambda>(A, HXaT_Rinv).
     bindE (solve A HXaT_Rinv) (\<lambda>S.
     bindE (matmul X_f_loc_pert S) (\<lambda>K.
     bindE (matvec K D) (\<lambda>KD.
     bindE (bc_vec (+) X_f_loc_mean KD) (\<lambda>X_a_loc_mean.
     bindE (ETKF_transform eigh self A X_f_loc_pert) (\<lambda>X_a_loc_pert.
       Inr (X_a_loc_mean, X_a_loc_pert))))))))))"



lemma quadratic_form_pos:
  fixes a b d d0 d1 :: real
  assumes "0 < a" "0 < a * d - b * b"
  shows "0 \<le> d * d0 * d0 - 2 * b * d0 * d1 + a * d1 * d1"
    and "(d0, d1) \<noteq> (0, 0) \<Longrightarrow> 0 < d * d0 * d0 - 2 * b * d0 * d1 + a * d1 * d1"
proof -
  let ?q = "d * d0 * d0 - 2 * b * d0 * d1 + a * d1 * d1"
  have e: "a * ?q = (a * d1 - b * d0)\<^sup>2 + (a * d - b * b) * d0\<^sup>2"
    by (simp add: algebra_simps power2_eq_square)
  have "0 \<le> (a * d1 - b * d0)\<^sup>2 + (a * d - b * b) * d0\<^sup>2"
    using assms(2) by (intro add_nonneg_nonneg mult_nonneg_nonneg) simp_all
  then have "0 \<le> a * ?q" using e by simp
  then show "0 \<le> ?q" using assms(1) by (simp add: zero_le_mult_iff)
  assume nz: "(d0, d1) \<noteq> (0, 0)"
  have "0 < (a * d1 - b * d0)\<^sup>2 + (a * d - b * b) * d0\<^sup>2"
  proof (cases "d0 = 0")
    case True
    then have "d1 \<noteq> 0" using nz by simp
    then have "0 < (a * d1)\<^sup>2" using assms(1) by simp
    then show ?thesis using True by simp
  next
    case False
    then have "0 < (a * d - b * b) * d0\<^sup>2" using assms(2) by simp
    moreover have "0 \<le> (a * d1 - b * d0)\<^sup>2" by simp
    ultimately show ?thesis by linarith
  qed
  then have "0 < a * ?q" using e by simp
  then show "0 < ?q" using assms(1) by (simp add: zero_less_mult_iff)
qed

lemma quadratic_over_det:
  fixes a b d d0 d1 k :: real
  shows "d / k * (d0 * d0) + - b / k * (d1 * d0) + (- b / k * (d0 * d1) + a / k * (d1 * d1))
      = (d * d0 * d0 - 2 * b * d0 * d1 + a * d1 * d1) / k"
  by (cases "k = 0") (simp_all add: field_simps)

lemma trace_Rinv_outer:
  "matmul [[p, q], [r, s]] (outer [d0, d1] [d0, d1])
     = Inr [[p * (d0 * d0) + q * (d1 * d0), p * (d0 * d1) + q * (d1 * d1)],
            [r * (d0 * d0) + s * (d1 * d0), r * (d0 * d1) + s * (d1 * d1)]]"
  by (simp add: matmul_def outer_def ncols_def nrows_def dot_def column_def)

lemma trace_2x2: "trace [[w, x], [y, z]] = w + z"
  by (simp add: trace_def nrows_def ncols_def)

lemma adaptive_forgetting_value:
  assumes "self_inflation_factor self = 0" "self_N_e_active self = Some N" "2 < N"
    and "0 < a" "0 < a * d - b * b"
  shows "ETKF_forgetting_factor self
           [[d / (a * d - b * b), - b / (a * d - b * b)], [- b / (a * d - b * b), a / (a * d - b * b)]]
           [d0, d1]
         = Inr (1 / (1 + (d * d0 * d0 - 2 * b * d0 * d1 + a * d1 * d1) / (a * d - b * b) / (real N - 2)))"
proof -
  let ?q = "d * d0 * d0 - 2 * b * d0 * d1 + a * d1 * d1"
  let ?det = "a * d - b * b"
  have q: "0 \<le> ?q" using assms(4,5) by (rule quadratic_form_pos(1))
  have n: "0 < real N - 2" using assms(3) by simp
  have "0 \<le> ?q / ?det / (real N - 2)"
    using q assms(5) n by simp
  then have nn: "0 \<le> 1 + ?q / ?det / (real N - 2)" by linarith
  have tr: "d / ?det * (d0 * d0) + - b / ?det * (d1 * d0) + (- b / ?det * (d0 * d1) + a / ?det * (d1 * d1))
      = ?q / ?det"
    by (rule quadratic_over_det)
  let ?Rinv = "[[d / ?det, - b / ?det], [- b / ?det, a / ?det]]"
  let ?RDD = "[[d / ?det * (d0 * d0) + - b / ?det * (d1 * d0), d / ?det * (d0 * d1) + - b / ?det * (d1 * d1)],
               [- b / ?det * (d0 * d0) + a / ?det * (d1 * d0), - b / ?det * (d0 * d1) + a / ?det * (d1 * d1)]]"
  have e1: "ETKF_forgetting_factor self ?Rinv [d0, d1]
      = Inr (1 / (sqrt (1 + trace ?RDD / (real N - 2)))\<^sup>2)"
    by (simp only: ETKF_forgetting_factor_def assms(1) if_True trace_Rinv_outer bindE_def
        sum.case get_N_e_active_def assms(2) option.case Let_def simp_thms)
  have e2: "trace ?RDD = ?q / ?det"
    by (simp only: trace_2x2 tr)
  have e3: "(sqrt (1 + ?q / ?det / (real N - 2)))\<^sup>2 = 1 + ?q / ?det / (real N - 2)"
    using nn by (rule real_sqrt_pow2)
  show ?thesis
    by (simp only: e1 e2 e3)
qed


lemma quadratic_isCont:
  fixes a b d c1 c2 :: real
  assumes "c1 \<noteq> 0" "c2 \<noteq> 0"
  shows "isCont (\<lambda>p. 1 / (1 + (d * fst p * fst p - 2 * b * fst p * snd p + a * snd p * snd p) / c1 / c2))
           (0::real, 0::real)"
  using assms by (auto intro!: continuous_intros)

lemma quadratic_tendsto:
  fixes a b d c1 c2 :: real
  assumes "c1 \<noteq> 0" "c2 \<noteq> 0"
  shows "((\<lambda>p. 1 / (1 + (d * fst p * fst p - 2 * b * fst p * snd p + a * snd p * snd p) / c1 / c2))
           \<longlongrightarrow> 1) (at (0::real, 0::real))"
  using quadratic_isCont [OF assms, of d b a] by (simp add: isCont_def)

lemma adaptive_forgetting_sqrt_form:
  assumes "self_inflation_factor self = 0" "self_N_e_active self = Some N"
    and "matmul Rinv (outer D D) = Inr RDD"
  shows "ETKF_forgetting_factor self Rinv D = Inr (1 / (sqrt (1 + trace RDD / (real N - 2)))\<^sup>2)"
  using assms by (simp add: ETKF_forgetting_factor_def bindE_def get_N_e_active_def)

text \<open>
  Claim C5. With \<^verbatim>\<open>inflation_factor = 0\<close> the inflation is
  \<open>sqrt (1 + trace (Rinv D D\<^sup>T) / (N_e_active - 2))\<close> and the forgetting factor its inverse
  square. For a symmetric positive definite \<open>R = [[a, b], [b, d]]\<close> and more than two
  active particles the forgetting factor is below 1 for every innovation other than
  zero, and it tends to 1 as the innovation tends to zero.
\<close>

theorem adaptive_inflation_forgetting_factor:
  assumes "self_inflation_factor self = 0" "self_N_e_active self = Some N" "2 < N"
    and "0 < a" "0 < a * d - b * b"
  shows "\<exists>Rinv. inv2x2 [[a, b], [b, d]] = Inr Rinv
      \<and> (\<forall>d0 d1. \<exists>RDD. matmul Rinv (outer [d0, d1] [d0, d1]) = Inr RDD
            \<and> ETKF_forgetting_factor self Rinv [d0, d1]
                = Inr (1 / (sqrt (1 + trace RDD / (real N - 2)))\<^sup>2)
            \<and> ((d0, d1) \<noteq> (0, 0) \<longrightarrow> 1 / (sqrt (1 + trace RDD / (real N - 2)))\<^sup>2 < 1))
      \<and> ((\<lambda>p. projr (ETKF_forgetting_factor self Rinv [fst p, snd p])) \<longlongrightarrow> 1) (at (0, 0))"
proof -
  let ?det = "a * d - b * b"
  let ?Rinv = "[[d / ?det, - b / ?det], [- b / ?det, a / ?det]]"
  let ?Q = "\<lambda>d0 d1. d * d0 * d0 - 2 * b * d0 * d1 + a * d1 * d1"
  let ?F = "\<lambda>d0 d1. 1 / (1 + ?Q d0 d1 / ?det / (real N - 2))"
  have n: "0 < real N - 2" using assms(3) by simp
  have inv: "inv2x2 [[a, b], [b, d]] = Inr ?Rinv"
    using assms(5) by (simp add: inv2x2_def)
  have val: "\<And>d0 d1. ETKF_forgetting_factor self ?Rinv [d0, d1] = Inr (?F d0 d1)"
    using assms by (rule adaptive_forgetting_value)
  have pointwise: "\<forall>d0 d1. \<exists>RDD. matmul ?Rinv (outer [d0, d1] [d0, d1]) = Inr RDD
      \<and> ETKF_forgetting_factor self ?Rinv [d0, d1]
          = Inr (1 / (sqrt (1 + trace RDD / (real N - 2)))\<^sup>2)
      \<and> ((d0, d1) \<noteq> (0, 0) \<longrightarrow> 1 / (sqrt (1 + trace RDD / (real N - 2)))\<^sup>2 < 1)"
  proof (intro allI)
    fix d0 d1
    obtain RDD where m: "matmul ?Rinv (outer [d0, d1] [d0, d1]) = Inr RDD"
      using trace_Rinv_outer by blast
    have s: "ETKF_forgetting_factor self ?Rinv [d0, d1]
        = Inr (1 / (sqrt (1 + trace RDD / (real N - 2)))\<^sup>2)"
      using assms(1,2) m by (rule adaptive_forgetting_sqrt_form)
    have eq: "1 / (sqrt (1 + trace RDD / (real N - 2)))\<^sup>2 = ?F d0 d1"
      using s val [of d0 d1] by (simp only: sum.inject)
    have "(d0, d1) \<noteq> (0, 0) \<longrightarrow> ?F d0 d1 < 1"
    proof
      assume "(d0, d1) \<noteq> (0, 0)"
      then have "0 < ?Q d0 d1" using assms(4,5) quadratic_form_pos(2) by blast
      then have "0 < ?Q d0 d1 / ?det / (real N - 2)" using assms(5) n by simp
      then show "?F d0 d1 < 1" by simp
    qed
    then have lt: "(d0, d1) \<noteq> (0, 0) \<longrightarrow> 1 / (sqrt (1 + trace RDD / (real N - 2)))\<^sup>2 < 1"
      by (simp only: eq)
    show "\<exists>RDD. matmul ?Rinv (outer [d0, d1] [d0, d1]) = Inr RDD
      \<and> ETKF_forgetting_factor self ?Rinv [d0, d1]
          = Inr (1 / (sqrt (1 + trace RDD / (real N - 2)))\<^sup>2)
      \<and> ((d0, d1) \<noteq> (0, 0) \<longrightarrow> 1 / (sqrt (1 + trace RDD / (real N - 2)))\<^sup>2 < 1)"
      by (intro exI [of _ RDD] conjI m s lt)
  qed
  have "((\<lambda>p. ?F (fst p) (snd p)) \<longlongrightarrow> 1) (at (0, 0))"
    using assms(5) n by (intro quadratic_tendsto) simp_all
  then have lim: "((\<lambda>p. projr (ETKF_forgetting_factor self ?Rinv [fst p, snd p])) \<longlongrightarrow> 1) (at (0, 0))"
    by (simp only: val sum.sel)
  show ?thesis
    using inv pointwise lim by (intro exI [of _ ?Rinv] conjI)
qed


text \<open>The demonstration filter with adaptive inflation and the transform update.\<close>

definition demo_lenkf_adaptive :: lenkf where
  "demo_lenkf_adaptive = demo_lenkf \<lparr> self_inflation_factor := 0, self_method := ''ETKF'' \<rparr>"

theorem adaptive_inflation_forgetting_factor_witness:
  "self_inflation_factor demo_lenkf_adaptive = 0
   \<and> self_N_e_active demo_lenkf_adaptive = Some 3
   \<and> (2::nat) < 3 \<and> (0::real) < 1 \<and> (0::real) < 1 * 1 - 0 * 0
   \<and> (\<exists>ff. ETKF_forgetting_factor demo_lenkf_adaptive [[1, 0], [0, 1]] [1, 0] = Inr ff \<and> ff < 1)"
proof -
  have h1: "self_inflation_factor demo_lenkf_adaptive = 0"
    by (simp add: demo_lenkf_adaptive_def)
  have h2: "self_N_e_active demo_lenkf_adaptive = Some 3"
    by (simp add: demo_lenkf_adaptive_def demo_lenkf_def)
  have h3: "(2::nat) < 3" by simp
  have h4: "(0::real) < 1" by simp
  have h5: "(0::real) < 1 * 1 - 0 * 0" by simp
  obtain Rinv where r: "inv2x2 [[1, 0], [0, 1]] = Inr Rinv"
    and p: "\<forall>d0 d1. \<exists>RDD. matmul Rinv (outer [d0, d1] [d0, d1]) = Inr RDD
            \<and> ETKF_forgetting_factor demo_lenkf_adaptive Rinv [d0, d1]
                = Inr (1 / (sqrt (1 + trace RDD / (real 3 - 2)))\<^sup>2)
            \<and> ((d0, d1) \<noteq> (0, 0) \<longrightarrow> 1 / (sqrt (1 + trace RDD / (real 3 - 2)))\<^sup>2 < 1)"
    using adaptive_inflation_forgetting_factor [OF h1 h2 h3 h4 h5] by blast
  have "Rinv = [[1, 0], [0, 1]]"
    using r by (simp add: inv2x2_def)
  then obtain RDD where "ETKF_forgetting_factor demo_lenkf_adaptive [[1, 0], [0, 1]] [1, 0]
                = Inr (1 / (sqrt (1 + trace RDD / (real 3 - 2)))\<^sup>2)"
    "((1::real, 0::real) \<noteq> (0, 0) \<longrightarrow> 1 / (sqrt (1 + trace RDD / (real 3 - 2)))\<^sup>2 < 1)"
    using p [rule_format, of 1 0] by blast
  then have "\<exists>ff. ETKF_forgetting_factor demo_lenkf_adaptive [[1, 0], [0, 1]] [1, 0] = Inr ff \<and> ff < 1"
    by (intro exI [of _ "1 / (sqrt (1 + trace RDD / (real 3 - 2)))\<^sup>2"]) simp
  then show ?thesis using h1 h2 by simp
qed

text \<open>
  A concrete run of the transform update: two active particles, unit observation
  covariance, one local cell (three state rows), and a forecast that reproduces the
  observation in the mean, so that the innovation is zero. \<open>demo_solve\<close> solves 2 by 2
  systems by the explicit inverse; \<open>demo_eigh\<close> returns the eigenvalues 1 and 9 and the
  normalised eigenvectors of the matrix \<open>[[5, -4], [-4, 5]]\<close> that arises in this run.
\<close>

definition demo_ensemble_pair :: ensemble where
  "demo_ensemble_pair = demo_ensemble \<lparr>
     ens_particles := [demo_particle, demo_particle],
     ens_particlesActive := [True, True],
     ens_numParticles := 2, ens_numActiveParticles := 2 \<rparr>"

definition demo_etkf :: lenkf where
  "demo_etkf = demo_lenkf \<lparr> self_ensemble := demo_ensemble_pair, self_N_e := 2,
     self_method := ''ETKF'', self_N_e_active := Some 2 \<rparr>"

definition demo_solve :: "matrix \<Rightarrow> matrix \<Rightarrow> error + matrix" where
  "demo_solve A B = bindE (inv2x2 A) (\<lambda>Ainv. matmul Ainv B)"

definition demo_V :: matrix where
  "demo_V = [[1 / sqrt 2, 1 / sqrt 2], [1 / sqrt 2, - 1 / sqrt 2]]"

definition demo_eigh :: "matrix \<Rightarrow> error + real list \<times> matrix" where
  "demo_eigh M = Inr ([1, 9], demo_V)"

lemma sqrt_ninth: "sqrt (1 / 9) = 1 / 3"
  by (rule real_sqrt_unique) (simp_all add: power2_eq_square)

lemmas array_simps = matmul_def matvec_def ncols_def nrows_def dot_def column_def transpose_m_def
  scale_def eye_def diag_def bc_mat_def bc_vec_def bc_dim_def bc_get_def bindE_def upt_conv_Cons

lemma demo_decomposition:
  "matmul [[5, -4], [-4, 5]] [[2/9, 0], [-2/9, 0]] = Inr [[2, 0], [-2, 0]]"
  "bindE (matmul demo_V (diag [1, 9])) (\<lambda>VS. matmul VS (transpose_m demo_V)) = Inr [[5, -4], [-4, 5]]"
  "matmul (transpose_m demo_V) demo_V = Inr (eye 2)"
  by (simp_all add: array_simps demo_V_def eval_nat_numeral field_simps)


lemma demo_solve_value:
  "demo_solve [[5, -4], [-4, 5]] [[2, 0], [-2, 0]] = Inr [[2/9, 0], [-2/9, 0]]"
  by (simp add: demo_solve_def inv2x2_def array_simps)

lemma demo_ETKF_analysis_value:
  "ETKF_analysis demo_solve demo_eigh demo_etkf (Some demo_ensemble_pair)
     [0, 1, 0] [[0, 0], [2, -2], [0, 0]] [1, 0] [[2, -2], [0, 0]] [1, 0] None
   = Inr ([0, 1, 0], [[0, 0], [2/3, -2/3], [0, 0]])"
  by (simp add: ETKF_analysis_def ETKF_A_def ETKF_transform_def ETKF_innovation_def ETKF_forgetting_factor_def
      get_N_e_active_def active_columns_def demo_etkf_def demo_lenkf_def demo_lenkf_new_def
      demo_ensemble_pair_def demo_ensemble_def demo_solve_def demo_eigh_def demo_V_def
      inv2x2_def array_simps sqrt_ninth)


lemma bindE_Inr_iff: "bindE m f = Inr y \<longleftrightarrow> (\<exists>x. m = Inr x \<and> f x = Inr y)"
  by (cases m) (simp_all add: bindE_def)

lemma bc_vec_sub_self:
  assumes "bc_vec (-) v v = Inr D"
  shows "\<forall>x \<in> set D. x = 0"
  using assms by (auto simp: bc_vec_def bindE_Inr_iff)

lemma sum_list_zeros: "\<forall>x \<in> set xs. x = (0::real) \<Longrightarrow> sum_list xs = 0"
  by (induction xs) simp_all

lemma dot_zero: "\<forall>x \<in> set D. x = 0 \<Longrightarrow> dot row D = 0"
proof -
  assume z: "\<forall>x \<in> set D. x = 0"
  have "\<forall>p \<in> set (zip row D). fst p * snd p = 0"
    using z by (auto dest: set_zip_rightD)
  then have "\<forall>x \<in> set (map2 (*) row D). x = 0" by auto
  then show ?thesis
    unfolding dot_def by (rule sum_list_zeros)
qed

lemma matmul_length: "matmul A B = Inr C \<Longrightarrow> length C = length A"
  by (auto simp: matmul_def split: if_splits)

lemma matvec_zero:
  assumes "matvec K D = Inr KD" "\<forall>x \<in> set D. x = 0"
  shows "length KD = length K \<and> (\<forall>x \<in> set KD. x = 0)"
  using assms by (auto simp: matvec_def dot_zero split: if_splits)

lemma bc_vec_add_zero:
  assumes "bc_vec (+) X KD = Inr m" "length KD = length X" "\<forall>x \<in> set KD. x = 0"
  shows "m = X"
proof -
  have m: "m = map (\<lambda>i. bc_get X i + bc_get KD i) [0 ..< length X]"
    using assms(1,2) by (simp add: bc_vec_def bc_dim_def bindE_def)
  have "\<And>i. i < length X \<Longrightarrow> bc_get X i + bc_get KD i = X ! i"
  proof -
    fix i assume i: "i < length X"
    have "bc_get KD i \<in> set KD"
      using i assms(2) by (auto simp: bc_get_def)
    then have "bc_get KD i = 0" using assms(3) by simp
    moreover have "bc_get X i = X ! i" using i by (auto simp: bc_get_def)
    ultimately show "bc_get X i + bc_get KD i = X ! i" by simp
  qed
  then have "map (\<lambda>i. bc_get X i + bc_get KD i) [0 ..< length X] = map (\<lambda>i. X ! i) [0 ..< length X]"
    by simp
  then show ?thesis using m by (simp add: map_nth)
qed

lemma ETKF_analysis_zero_innovation_mean:
  assumes "ETKF_analysis solve eigh self ensemble X_f_loc_mean X_f_loc_pert HX_f_loc_mean
             HX_f_loc_pert HX_f_loc_mean None = Inr (X_a_loc_mean, X_a_loc_pert)"
    and "length X_f_loc_mean = nrows X_f_loc_pert"
  shows "X_a_loc_mean = X_f_loc_mean"
proof -
  from assms(1) obtain D S K KD where
    D: "bc_vec (-) HX_f_loc_mean HX_f_loc_mean = Inr D"
    and K: "matmul X_f_loc_pert S = Inr K"
    and KD: "matvec K D = Inr KD"
    and m: "bc_vec (+) X_f_loc_mean KD = Inr X_a_loc_mean"
    by (auto simp: ETKF_analysis_def ETKF_innovation_def bindE_Inr_iff)
  have z: "\<forall>x \<in> set D. x = 0" using D by (rule bc_vec_sub_self)
  have "length KD = length K \<and> (\<forall>x \<in> set KD. x = 0)" using KD z by (rule matvec_zero)
  moreover have "length K = length X_f_loc_mean"
    using matmul_length [OF K] assms(2) by (simp add: nrows_def)
  ultimately show ?thesis using bc_vec_add_zero [OF m] by simp
qed

lemma ETKF_analysis_perturbations:
  assumes "ETKF_analysis solve eigh self ensemble X_f_loc_mean X_f_loc_pert HX_f_loc_mean
             HX_f_loc_pert y_loc D0 = Inr (X_a_loc_mean, X_a_loc_pert)"
    and "self_inflation_factor self \<noteq> 0"
  shows "\<exists>Rinv A HXaT_Rinv. inv2x2 (ens_observationCov (self_ensemble self)) = Inr Rinv
         \<and> ETKF_A self ensemble HX_f_loc_pert Rinv (1 / (self_inflation_factor self)\<^sup>2) = Inr (A, HXaT_Rinv)
         \<and> ETKF_transform eigh self A X_f_loc_pert = Inr X_a_loc_pert"
  using assms by (auto simp: ETKF_analysis_def ETKF_forgetting_factor_def bindE_Inr_iff)


lemma demo_ETKF_analysis_other_observation:
  "\<exists>P. ETKF_analysis demo_solve demo_eigh demo_etkf (Some demo_ensemble_pair)
     [0, 1, 0] [[0, 0], [2, -2], [0, 0]] [1, 0] [[2, -2], [0, 0]] [5, 5] None
   = Inr ([0, 41/9, 0], P)"
  by (simp add: ETKF_analysis_def ETKF_A_def ETKF_transform_def ETKF_innovation_def
      ETKF_forgetting_factor_def
      get_N_e_active_def active_columns_def demo_etkf_def demo_lenkf_def demo_lenkf_new_def
      demo_ensemble_pair_def demo_ensemble_def demo_solve_def demo_eigh_def demo_V_def
      inv2x2_def array_simps sqrt_ninth)

text \<open>
  Claim C4, as stated, fails. With \<^verbatim>\<open>inflation_factor = 1\<close> and a forecast whose
  observed mean equals the observation (innovation zero), the analysis mean is the
  forecast mean, but the analysis perturbations are a third of the forecast
  perturbations: the transform \<open>V diag (1 / sqrt \<sigma>) V\<^sup>T\<close> does not read the innovation.
  The other conjuncts record that \<open>demo_solve\<close> and \<open>demo_eigh\<close> return a solution and
  an orthonormal eigen-decomposition of the matrix \<open>A = [[5, -4], [-4, 5]]\<close> of this run.
\<close>

theorem ETKF_zero_innovation_counterexample:
  "self_inflation_factor demo_etkf = 1
   \<and> ETKF_innovation [1, 0] [1, 0] None = Inr [0, 0]
   \<and> ETKF_analysis demo_solve demo_eigh demo_etkf (Some demo_ensemble_pair)
        [0, 1, 0] [[0, 0], [2, -2], [0, 0]] [1, 0] [[2, -2], [0, 0]] [1, 0] None
      = Inr ([0, 1, 0], [[0, 0], [2/3, -2/3], [0, 0]])
   \<and> [[0, 0], [2/3, -2/3], [0, 0]] \<noteq> [[0, 0], [2, -2], [0::real, 0]]
   \<and> matmul [[5, -4], [-4, 5]] [[2/9, 0], [-2/9, 0]] = Inr [[2, 0], [-2, 0]]
   \<and> bindE (matmul demo_V (diag [1, 9])) (\<lambda>VS. matmul VS (transpose_m demo_V))
        = Inr [[5, -4], [-4, 5]]
   \<and> matmul (transpose_m demo_V) demo_V = Inr (eye 2)"
proof -
  have "self_inflation_factor demo_etkf = 1"
    by (simp add: demo_etkf_def demo_lenkf_def demo_lenkf_new_def)
  moreover have "ETKF_innovation [1, 0] [1, 0] None = Inr [0, 0]"
    by (simp add: ETKF_innovation_def array_simps)
  ultimately show ?thesis
    using demo_ETKF_analysis_value demo_decomposition by simp
qed

text \<open>
  Claim C4, amended. When \<^verbatim>\<open>ETKF_loc\<close> runs with \<^verbatim>\<open>inflation_factor = 1\<close> and zero
  innovation (no \<^verbatim>\<open>D\<close> passed and \<^verbatim>\<open>y_loc\<close> equal to the observed forecast mean), the
  analysis mean equals the forecast mean. The analysis perturbations are the forecast
  perturbations times the transform of the eigen-decomposition, and they are the same
  for every other observation and innovation: a zero innovation does not preserve the
  spread.
\<close>

theorem ETKF_zero_innovation:
  assumes "self_inflation_factor self = 1"
    and "ETKF_analysis solve eigh self ensemble X_f_loc_mean X_f_loc_pert HX_f_loc_mean
           HX_f_loc_pert HX_f_loc_mean None = Inr (X_a_loc_mean, X_a_loc_pert)"
    and "length X_f_loc_mean = nrows X_f_loc_pert"
  shows "X_a_loc_mean = X_f_loc_mean
       \<and> (\<forall>y_loc D0 m' P'.
             ETKF_analysis solve eigh self ensemble X_f_loc_mean X_f_loc_pert HX_f_loc_mean
               HX_f_loc_pert y_loc D0 = Inr (m', P') \<longrightarrow> P' = X_a_loc_pert)"
proof -
  have nz: "self_inflation_factor self \<noteq> 0" using assms(1) by simp
  have mean: "X_a_loc_mean = X_f_loc_mean"
    using assms(2,3) by (rule ETKF_analysis_zero_innovation_mean)
  obtain Rinv A HR where p: "inv2x2 (ens_observationCov (self_ensemble self)) = Inr Rinv"
    "ETKF_A self ensemble HX_f_loc_pert Rinv (1 / (self_inflation_factor self)\<^sup>2) = Inr (A, HR)"
    "ETKF_transform eigh self A X_f_loc_pert = Inr X_a_loc_pert"
    using ETKF_analysis_perturbations [OF assms(2) nz] by blast
  have "\<forall>y_loc D0 m' P'.
      ETKF_analysis solve eigh self ensemble X_f_loc_mean X_f_loc_pert HX_f_loc_mean
        HX_f_loc_pert y_loc D0 = Inr (m', P') \<longrightarrow> P' = X_a_loc_pert"
  proof (intro allI impI)
    fix y_loc D0 m' P'
    assume "ETKF_analysis solve eigh self ensemble X_f_loc_mean X_f_loc_pert HX_f_loc_mean
        HX_f_loc_pert y_loc D0 = Inr (m', P')"
    then obtain Rinv' A' HR' where q: "inv2x2 (ens_observationCov (self_ensemble self)) = Inr Rinv'"
      "ETKF_A self ensemble HX_f_loc_pert Rinv' (1 / (self_inflation_factor self)\<^sup>2) = Inr (A', HR')"
      "ETKF_transform eigh self A' X_f_loc_pert = Inr P'"
      using ETKF_analysis_perturbations [OF _ nz] by blast
    have "Rinv' = Rinv" using p(1) q(1) by simp
    then have "A' = A" using p(2) q(2) by simp
    then show "P' = X_a_loc_pert" using p(3) q(3) by simp
  qed
  then show ?thesis using mean by blast
qed

theorem ETKF_zero_innovation_witness:
  "self_inflation_factor demo_etkf = 1
   \<and> length [0::real, 1, 0] = nrows [[0, 0], [2, -2], [0, 0]]
   \<and> ETKF_analysis demo_solve demo_eigh demo_etkf (Some demo_ensemble_pair)
        [0, 1, 0] [[0, 0], [2, -2], [0, 0]] [1, 0] [[2, -2], [0, 0]] [1, 0] None
      = Inr ([0, 1, 0], [[0, 0], [2/3, -2/3], [0, 0]])
   \<and> ETKF_analysis demo_solve demo_eigh demo_etkf (Some demo_ensemble_pair)
        [0, 1, 0] [[0, 0], [2, -2], [0, 0]] [1, 0] [[2, -2], [0, 0]] [5, 5] None
      = Inr ([0, 41/9, 0], [[0, 0], [2/3, -2/3], [0, 0]])"
proof -
  have h1: "self_inflation_factor demo_etkf = 1"
    by (simp add: demo_etkf_def demo_lenkf_def demo_lenkf_new_def)
  have h3: "length [0::real, 1, 0] = nrows [[0, 0], [2, -2], [0, 0]]"
    by (simp add: nrows_def)
  note t = ETKF_zero_innovation [OF h1 demo_ETKF_analysis_value h3]
  obtain P where P: "ETKF_analysis demo_solve demo_eigh demo_etkf (Some demo_ensemble_pair)
     [0, 1, 0] [[0, 0], [2, -2], [0, 0]] [1, 0] [[2, -2], [0, 0]] [5, 5] None
   = Inr ([0, 41/9, 0], P)"
    using demo_ETKF_analysis_other_observation by blast
  then have "P = [[0, 0], [2/3, -2/3], [0, 0]]"
    using t [THEN conjunct2, rule_format, of "[5, 5]" None "[0, 41/9, 0]" P] by simp
  then show ?thesis using h1 h3 P demo_ETKF_analysis_value by simp
qed

subsection \<open>The stochastic update \<^verbatim>\<open>SEnKF_loc\<close>\<close>

text \<open>
  \<^verbatim>\<open>np.random.multivariate_normal(mean=np.zeros(2), cov=R, size=k)\<close> enters as the
  parameter \<open>draw\<close>: \<open>draw k\<close> is the array of shape \<open>(k, 2)\<close> that the generator returns.
  The perturbed observations are drawn with \<^verbatim>\<open>size=self.N_e\<close>. \<^verbatim>\<open>y_loc\<close> is added to
  every row, \<^verbatim>\<open>HX_f_loc_mean[:,np.newaxis]\<close> is a column. The two divisions by
  \<^verbatim>\<open>self.N_e - 1\<close> are divisions of Python numbers and raise \<^verbatim>\<open>ZeroDivisionError\<close> for
  a single particle. Operators of equal precedence associate to the left, which fixes
  the order of the products and of the failures.
\<close>

definition SEnKF_innovation ::
  "(nat \<Rightarrow> matrix) \<Rightarrow> lenkf \<Rightarrow> real list \<Rightarrow> matrix \<Rightarrow> real list \<Rightarrow> matrix option \<Rightarrow> error + matrix" where
  "SEnKF_innovation draw self HX_f_loc_mean HX_f_loc_pert y_loc D0 =
     (case D0 of
        Some D \<Rightarrow> Inr D
      | None \<Rightarrow>
          bindE (bc_mat (+) [y_loc] (draw (self_N_e self))) (\<lambda>Y.
          let Y_loc = transpose_m Y in
          bindE (bc_mat (+) (map (\<lambda>x. [x]) HX_f_loc_mean) HX_f_loc_pert) (\<lambda>HX.
            bc_mat (-) Y_loc HX)))"

definition SEnKF_loc ::
  "(nat \<Rightarrow> matrix) \<Rightarrow> lenkf \<Rightarrow> matrix \<Rightarrow> matrix \<Rightarrow> real list \<Rightarrow> matrix \<Rightarrow> real list \<Rightarrow>
   matrix option \<Rightarrow> error + matrix" where
  "SEnKF_loc draw self X_f_loc X_f_loc_pert HX_f_loc_mean HX_f_loc_pert y_loc D0 =
     (let R = ens_observationCov (self_ensemble self) in
      bindE (SEnKF_innovation draw self HX_f_loc_mean HX_f_loc_pert y_loc D0) (\<lambda>D.
      if self_N_e self = 1 then Inl ZeroDivisionError else
      bindE (matmul (scale ((self_inflation_factor self)\<^sup>2 / (real (self_N_e self) - 1)) HX_f_loc_pert)
               (transpose_m HX_f_loc_pert)) (\<lambda>HHT.
      bindE (bc_mat (+) HHT R) (\<lambda>F.
      bindE (matmul (scale (1 / (real (self_N_e self) - 1)) X_f_loc_pert)
               (transpose_m HX_f_loc_pert)) (\<lambda>XHT.
      bindE (inv2x2 F) (\<lambda>Finv.
      bindE (matmul XHT Finv) (\<lambda>XHTF.
      bindE (matmul XHTF D) (\<lambda>gain.
        bc_mat (+) X_f_loc gain))))))))"

subsection \<open>Shapes\<close>

lemma mat_dims: "mat r c A \<Longrightarrow> 0 < r \<Longrightarrow> nrows A = r \<and> ncols A = c"
  by (cases A) (auto simp: mat_def nrows_def ncols_def)

lemma mat_nth: "mat r c A \<Longrightarrow> i < r \<Longrightarrow> length (A ! i) = c"
  by (auto simp: mat_def list_all_length)

lemma mat_map: "mat r c (map (\<lambda>i. map (f i) [0 ..< c]) [0 ..< r])"
  by (simp add: mat_def list_all_iff)

lemma mat_scale: "mat r c A \<Longrightarrow> mat r c (scale k A)"
  by (simp add: mat_def scale_def list_all_iff)

lemma mat_transpose: "mat r c A \<Longrightarrow> 0 < r \<Longrightarrow> mat c r (transpose_m A)"
  by (frule (1) mat_dims) (simp add: mat_def transpose_m_def column_def list_all_iff)

lemma matmul_shape:
  assumes "mat r k A" "mat k c B" "0 < r" "0 < k"
  shows "\<exists>C. matmul A B = Inr C \<and> mat r c C"
proof -
  have "ncols A = nrows B" "ncols B = c"
    using mat_dims [OF assms(1,3)] mat_dims [OF assms(2,4)] by simp_all
  then show ?thesis
    using assms(1) by (simp add: matmul_def mat_def list_all_iff)
qed

lemma matmul_mismatch:
  assumes "mat r k A" "mat k' c B" "0 < r" "0 < k'" "k \<noteq> k'"
  shows "matmul A B = Inl ValueError"
  using mat_dims [OF assms(1,3)] mat_dims [OF assms(2,4)] assms(5) by (simp add: matmul_def)

lemma bc_mat_shape:
  assumes "mat r1 c1 A" "mat r2 c2 B" "0 < r1" "0 < r2"
    and "bc_dim r1 r2 = Inr r" "bc_dim c1 c2 = Inr c"
  shows "\<exists>C. bc_mat f A B = Inr C \<and> mat r c C"
  using mat_dims [OF assms(1,3)] mat_dims [OF assms(2,4)] assms(5,6)
  by (simp add: bc_mat_def bindE_def mat_map)

lemma bc_mat_mismatch:
  assumes "mat r1 c1 A" "mat r2 c2 B" "0 < r1" "0 < r2"
    and "bc_dim r1 r2 = Inr r" "bc_dim c1 c2 = Inl ValueError"
  shows "bc_mat f A B = Inl ValueError"
  using mat_dims [OF assms(1,3)] mat_dims [OF assms(2,4)] assms(5,6)
  by (simp add: bc_mat_def bindE_def)

lemma inv2x2_shape:
  assumes "mat 2 2 F"
  shows "inv2x2 F = Inl LinAlgError \<or> (\<exists>Finv. inv2x2 F = Inr Finv \<and> mat 2 2 Finv)"
proof -
  from assms obtain a b c d where "F = [[a, b], [c, d]]"
    by (auto simp: mat_def length_Suc_conv eval_nat_numeral)
  then show ?thesis by (simp add: inv2x2_def mat_def)
qed


lemma mat_row_vector: "length v = c \<Longrightarrow> mat 1 c [v]"
  by (simp add: mat_def)

lemma mat_column_vector: "length v = r \<Longrightarrow> mat r 1 (map (\<lambda>x. [x]) v)"
  by (simp add: mat_def list_all_iff)

lemma bc_dim_simps:
  "bc_dim n n = Inr n" "bc_dim 1 n = Inr n" "bc_dim n 1 = Inr n"
  "m \<noteq> n \<Longrightarrow> m \<noteq> 1 \<Longrightarrow> n \<noteq> 1 \<Longrightarrow> bc_dim m n = Inl ValueError"
  by (auto simp: bc_dim_def)

lemma SEnKF_innovation_shape:
  assumes "length HX_f_loc_mean = 2" "mat 2 Na HX_f_loc_pert" "length y_loc = 2"
    and "mat (self_N_e self) 2 (draw (self_N_e self))" "0 < Na" "2 \<le> self_N_e self"
  shows "(Na = self_N_e self \<or> Na = 1 \<longrightarrow>
            (\<exists>D. SEnKF_innovation draw self HX_f_loc_mean HX_f_loc_pert y_loc None = Inr D
               \<and> mat 2 (self_N_e self) D))
       \<and> (Na \<noteq> self_N_e self \<and> Na \<noteq> 1 \<longrightarrow>
            SEnKF_innovation draw self HX_f_loc_mean HX_f_loc_pert y_loc None = Inl ValueError)"
proof -
  let ?N = "self_N_e self"
  have N: "0 < ?N" "?N \<noteq> 1" using assms(6) by simp_all
  obtain Y where Y: "bc_mat (+) [y_loc] (draw ?N) = Inr Y" "mat ?N 2 Y"
    using bc_mat_shape [OF mat_row_vector [OF assms(3)] assms(4) _ N(1) bc_dim_simps(2) bc_dim_simps(1), of "(+)"]
    by auto
  have YT: "mat 2 ?N (transpose_m Y)"
    using Y(2) N(1) by (rule mat_transpose)
  obtain HX where HX: "bc_mat (+) (map (\<lambda>x. [x]) HX_f_loc_mean) HX_f_loc_pert = Inr HX" "mat 2 Na HX"
    using bc_mat_shape [OF mat_column_vector [OF assms(1)] assms(2) _ _ bc_dim_simps(1) bc_dim_simps(2), of "(+)"]
    by auto
  have a: "Na = ?N \<or> Na = 1 \<longrightarrow> (\<exists>D. bc_mat (-) (transpose_m Y) HX = Inr D \<and> mat 2 ?N D)"
  proof
    assume "Na = ?N \<or> Na = 1"
    then have "bc_dim ?N Na = Inr ?N" by (auto simp: bc_dim_def)
    then show "\<exists>D. bc_mat (-) (transpose_m Y) HX = Inr D \<and> mat 2 ?N D"
      using bc_mat_shape [OF YT HX(2) _ _ bc_dim_simps(1), of ?N "(-)"] by simp
  qed
  have b: "Na \<noteq> ?N \<and> Na \<noteq> 1 \<longrightarrow> bc_mat (-) (transpose_m Y) HX = Inl ValueError"
  proof
    assume "Na \<noteq> ?N \<and> Na \<noteq> 1"
    then have "bc_dim ?N Na = Inl ValueError" using N by (simp add: bc_dim_simps)
    then show "bc_mat (-) (transpose_m Y) HX = Inl ValueError"
      using bc_mat_mismatch [OF YT HX(2) _ _ bc_dim_simps(1), of "(-)"] by simp
  qed
  show ?thesis
    using a b Y(1) HX(1) by (simp add: SEnKF_innovation_def bindE_def)
qed


lemma SEnKF_loc_shape:
  assumes X: "mat n Na X_f_loc" "mat n Na X_f_loc_pert" "mat 2 Na HX_f_loc_pert"
    and R: "mat 2 2 (ens_observationCov (self_ensemble self))"
    and D: "SEnKF_innovation draw self HX_f_loc_mean HX_f_loc_pert y_loc D0 = Inr D" "mat 2 c D"
    and pos: "0 < n" "0 < Na" "self_N_e self \<noteq> 1"
    and k: "bc_dim Na c = Inr k"
  shows "SEnKF_loc draw self X_f_loc X_f_loc_pert HX_f_loc_mean HX_f_loc_pert y_loc D0 = Inl LinAlgError
       \<or> (\<exists>X_a_loc. SEnKF_loc draw self X_f_loc X_f_loc_pert HX_f_loc_mean HX_f_loc_pert y_loc D0
              = Inr X_a_loc \<and> mat n k X_a_loc)"
proof -
  let ?N = "self_N_e self"
  have HT: "mat Na 2 (transpose_m HX_f_loc_pert)"
    using X(3) by (rule mat_transpose) simp
  obtain HHT where HHT: "matmul (scale ((self_inflation_factor self)\<^sup>2 / (real ?N - 1)) HX_f_loc_pert)
      (transpose_m HX_f_loc_pert) = Inr HHT" "mat 2 2 HHT"
    using matmul_shape [OF mat_scale [OF X(3)] HT _ pos(2)] by auto
  obtain F where F: "bc_mat (+) HHT (ens_observationCov (self_ensemble self)) = Inr F" "mat 2 2 F"
    using bc_mat_shape [OF HHT(2) R _ _ bc_dim_simps(1) bc_dim_simps(1), of "(+)"] by auto
  obtain XHT where XHT: "matmul (scale (1 / (real ?N - 1)) X_f_loc_pert)
      (transpose_m HX_f_loc_pert) = Inr XHT" "mat n 2 XHT"
    using matmul_shape [OF mat_scale [OF X(2)] HT pos(1,2)] by auto
  note pre = D(1) pos(3) HHT(1) F(1) XHT(1)
  show ?thesis
  proof (cases "inv2x2 F = Inl LinAlgError")
    case True
    then show ?thesis using pre by (simp add: SEnKF_loc_def bindE_def)
  next
    case False
    then obtain Finv where Finv: "inv2x2 F = Inr Finv" "mat 2 2 Finv"
      using inv2x2_shape [OF F(2)] by auto
    obtain XHTF where XHTF: "matmul XHT Finv = Inr XHTF" "mat n 2 XHTF"
      using matmul_shape [OF XHT(2) Finv(2) pos(1)] by auto
    obtain gain where gain: "matmul XHTF D = Inr gain" "mat n c gain"
      using matmul_shape [OF XHTF(2) D(2) pos(1)] by auto
    obtain X_a_loc where "bc_mat (+) X_f_loc gain = Inr X_a_loc" "mat n k X_a_loc"
      using bc_mat_shape [OF X(1) gain(2) pos(1) pos(1) bc_dim_simps(1) k, of "(+)"] by auto
    then show ?thesis
      using pre Finv(1) XHTF(1) gain(1) by (simp add: SEnKF_loc_def bindE_def)
  qed
qed

text \<open>
  Claim C9. \<^verbatim>\<open>SEnKF_loc\<close> draws \<^verbatim>\<open>N_e\<close> perturbed observations and divides by
  \<^verbatim>\<open>N_e - 1\<close>; it never reads \<^verbatim>\<open>N_e_active\<close>, the number of columns of the state and
  observation perturbations. For inputs of the shapes that \<^verbatim>\<open>assimilate\<close> passes (at
  least two particles, no \<^verbatim>\<open>D\<close>) the update is shape-consistent exactly when the two
  numbers agree: then it returns an array of the shape of \<^verbatim>\<open>X_f_loc\<close> unless the
  innovation covariance is singular; with another number of active columns it raises
  \<^verbatim>\<open>ValueError\<close>, or, for a single active column, broadcasts to an array with \<^verbatim>\<open>N_e\<close>
  columns.
\<close>

theorem SEnKF_loc_shape_consistency:
  assumes "mat n N_e_active X_f_loc" "mat n N_e_active X_f_loc_pert"
    and "length HX_f_loc_mean = 2" "mat 2 N_e_active HX_f_loc_pert" "length y_loc = 2"
    and "mat (self_N_e self) 2 (draw (self_N_e self))"
    and "mat 2 2 (ens_observationCov (self_ensemble self))"
    and "0 < n" "0 < N_e_active" "2 \<le> self_N_e self"
  shows "(N_e_active = self_N_e self \<longrightarrow>
            SEnKF_loc draw self X_f_loc X_f_loc_pert HX_f_loc_mean HX_f_loc_pert y_loc None = Inl LinAlgError
            \<or> (\<exists>X_a_loc. SEnKF_loc draw self X_f_loc X_f_loc_pert HX_f_loc_mean HX_f_loc_pert y_loc None
                  = Inr X_a_loc \<and> mat n N_e_active X_a_loc))
       \<and> (N_e_active \<noteq> self_N_e self \<and> N_e_active \<noteq> 1 \<longrightarrow>
            SEnKF_loc draw self X_f_loc X_f_loc_pert HX_f_loc_mean HX_f_loc_pert y_loc None = Inl ValueError)
       \<and> (N_e_active \<noteq> self_N_e self \<and> N_e_active = 1 \<longrightarrow>
            SEnKF_loc draw self X_f_loc X_f_loc_pert HX_f_loc_mean HX_f_loc_pert y_loc None = Inl LinAlgError
            \<or> (\<exists>X_a_loc. SEnKF_loc draw self X_f_loc X_f_loc_pert HX_f_loc_mean HX_f_loc_pert y_loc None
                  = Inr X_a_loc \<and> mat n (self_N_e self) X_a_loc \<and> \<not> mat n N_e_active X_a_loc))
       \<and> (\<forall>k. SEnKF_loc draw (self \<lparr> self_N_e_active := k \<rparr>) X_f_loc X_f_loc_pert HX_f_loc_mean
                 HX_f_loc_pert y_loc None
               = SEnKF_loc draw self X_f_loc X_f_loc_pert HX_f_loc_mean HX_f_loc_pert y_loc None)"
proof -
  let ?N = "self_N_e self"
  let ?r = "SEnKF_loc draw self X_f_loc X_f_loc_pert HX_f_loc_mean HX_f_loc_pert y_loc None"
  note inn = SEnKF_innovation_shape [where draw = draw and self = self, OF assms(3,4,5,6,9,10)]
  have N1: "?N \<noteq> 1" using assms(10) by simp
  have a: "N_e_active = ?N \<longrightarrow> ?r = Inl LinAlgError \<or> (\<exists>X_a_loc. ?r = Inr X_a_loc \<and> mat n N_e_active X_a_loc)"
  proof
    assume e: "N_e_active = ?N"
    then obtain D where D: "SEnKF_innovation draw self HX_f_loc_mean HX_f_loc_pert y_loc None = Inr D"
      "mat 2 ?N D"
      using inn by auto
    have "bc_dim N_e_active ?N = Inr N_e_active" using e by (simp add: bc_dim_def)
    then show "?r = Inl LinAlgError \<or> (\<exists>X_a_loc. ?r = Inr X_a_loc \<and> mat n N_e_active X_a_loc)"
      using SEnKF_loc_shape [OF assms(1,2,4,7) D assms(8,9) N1] by simp
  qed
  have b: "N_e_active \<noteq> ?N \<and> N_e_active \<noteq> 1 \<longrightarrow> ?r = Inl ValueError"
    using inn by (auto simp: SEnKF_loc_def bindE_def)
  have c: "N_e_active \<noteq> ?N \<and> N_e_active = 1 \<longrightarrow>
      ?r = Inl LinAlgError \<or> (\<exists>X_a_loc. ?r = Inr X_a_loc \<and> mat n ?N X_a_loc \<and> \<not> mat n N_e_active X_a_loc)"
  proof
    assume e: "N_e_active \<noteq> ?N \<and> N_e_active = 1"
    then obtain D where D: "SEnKF_innovation draw self HX_f_loc_mean HX_f_loc_pert y_loc None = Inr D"
      "mat 2 ?N D"
      using inn by auto
    have "bc_dim N_e_active ?N = Inr ?N" using e by (simp add: bc_dim_def)
    then have "?r = Inl LinAlgError \<or> (\<exists>X_a_loc. ?r = Inr X_a_loc \<and> mat n ?N X_a_loc)"
      using SEnKF_loc_shape [OF assms(1,2,4,7) D assms(8,9) N1] by simp
    moreover have "\<And>X_a_loc. mat n ?N X_a_loc \<Longrightarrow> \<not> mat n N_e_active X_a_loc"
      using e assms(8) by (metis mat_dims)
    ultimately show "?r = Inl LinAlgError
        \<or> (\<exists>X_a_loc. ?r = Inr X_a_loc \<and> mat n ?N X_a_loc \<and> \<not> mat n N_e_active X_a_loc)"
      by blast
  qed
  have d: "\<forall>k. SEnKF_loc draw (self \<lparr> self_N_e_active := k \<rparr>) X_f_loc X_f_loc_pert HX_f_loc_mean
                 HX_f_loc_pert y_loc None = ?r"
    by (simp add: SEnKF_loc_def SEnKF_innovation_def cong: if_cong)
  show ?thesis by (intro conjI a b c d)
qed


text \<open>A draw without noise, for concrete evaluation.\<close>

definition demo_draw :: "nat \<Rightarrow> matrix" where
  "demo_draw k = replicate k [0, 0]"

lemma demo_SEnKF_loc_value:
  "SEnKF_loc demo_draw demo_lenkf [[0, 0, 0], [2, 1, 0], [0, 0, 0]] [[0, 0, 0], [1, 0, -1], [0, 0, 0]]
     [1, 0] [[1, 0, -1], [0, 0, 0]] [1, 0] None
   = Inr [[0, 0, 0], [3/2, 1, 1/2], [0, 0, 0]]"
  by (simp add: SEnKF_loc_def SEnKF_innovation_def demo_draw_def demo_lenkf_def demo_lenkf_new_def
      demo_ensemble_def inv2x2_def array_simps eval_nat_numeral)

theorem SEnKF_loc_shape_consistency_witness:
  "mat 3 3 [[0, 0, 0], [2, 1, 0], [0::real, 0, 0]] \<and> mat 3 3 [[0, 0, 0], [1, 0, -1], [0::real, 0, 0]]
   \<and> length [1::real, 0] = 2 \<and> mat 2 3 [[1, 0, -1], [0::real, 0, 0]]
   \<and> mat (self_N_e demo_lenkf) 2 (demo_draw (self_N_e demo_lenkf))
   \<and> mat 2 2 (ens_observationCov (self_ensemble demo_lenkf))
   \<and> (0::nat) < 3 \<and> 2 \<le> self_N_e demo_lenkf \<and> 3 = self_N_e demo_lenkf
   \<and> SEnKF_loc demo_draw demo_lenkf [[0, 0, 0], [2, 1, 0], [0, 0, 0]] [[0, 0, 0], [1, 0, -1], [0, 0, 0]]
        [1, 0] [[1, 0, -1], [0, 0, 0]] [1, 0] None
      = Inr [[0, 0, 0], [3/2, 1, 1/2], [0, 0, 0]]
   \<and> mat 3 3 [[0, 0, 0], [3/2, 1, 1/2], [0::real, 0, 0]]"
proof -
  have h1: "mat 3 3 [[0, 0, 0], [2, 1, 0], [0::real, 0, 0]]" by (simp add: mat_def)
  have h2: "mat 3 3 [[0, 0, 0], [1, 0, -1], [0::real, 0, 0]]" by (simp add: mat_def)
  have h3: "length [1::real, 0] = 2" by simp
  have h4: "mat 2 3 [[1, 0, -1], [0::real, 0, 0]]" by (simp add: mat_def)
  have N: "self_N_e demo_lenkf = 3" by (simp add: demo_lenkf_def demo_lenkf_new_def)
  have h6: "mat (self_N_e demo_lenkf) 2 (demo_draw (self_N_e demo_lenkf))"
    by (simp add: N mat_def demo_draw_def list_all_iff)
  have h7: "mat 2 2 (ens_observationCov (self_ensemble demo_lenkf))"
    by (simp add: demo_lenkf_def demo_lenkf_new_def demo_ensemble_def mat_def)
  have h8: "(0::nat) < 3" by simp
  have h10: "2 \<le> self_N_e demo_lenkf" by (simp add: N)
  note t = SEnKF_loc_shape_consistency [where draw = demo_draw and self = demo_lenkf,
      OF h1 h2 h3 h4 h3 h6 h7 h8 h8 h10, THEN conjunct1]
  have "mat 3 3 [[0, 0, 0], [3/2, 1, 1/2], [0::real, 0, 0]]"
    using t N demo_SEnKF_loc_value by simp
  then show ?thesis
    using h1 h2 h4 h6 h7 N demo_SEnKF_loc_value by simp
qed

subsection \<open>Local patches: \<^verbatim>\<open>getLocalIndices\<close>\<close>

text \<open>\<^verbatim>\<open>np.round\<close> rounds halves to the even neighbour.\<close>

definition round_half_even :: "real \<Rightarrow> int" where
  "round_half_even x =
     (let f = \<lfloor>x\<rfloor>; d = x - of_int f
      in if d < 1/2 then f else if d > 1/2 then f + 1 else if even f then f else f + 1)"

text \<open>
  The indices of the Python slice \<^verbatim>\<open>[start:stop]\<close> on an axis of length \<open>n\<close>: a negative
  bound counts from the end, and both bounds are clipped to the axis.
\<close>

definition py_slice :: "int \<Rightarrow> int \<Rightarrow> nat \<Rightarrow> nat list" where
  "py_slice start stop n =
     (let clip = (\<lambda>i. if i < 0 then max 0 (i + int n) else min i (int n))
      in [nat (clip start) ..< nat (clip stop)])"

text \<open>
  The \<^verbatim>\<open>if\<close>/\<^verbatim>\<open>elif\<close> of one axis: the ranges appended to \<^verbatim>\<open>xranges\<close> (\<^verbatim>\<open>yranges\<close>) and
  the roll. A box that leaves the axis on the low side is split there, and only
  otherwise one that leaves it on the high side.
\<close>

definition axis_ranges :: "int \<Rightarrow> int \<Rightarrow> nat \<Rightarrow> (int \<times> int) list \<times> int" where
  "axis_ranges loc_cell_lo loc_cell_hi n =
     (if loc_cell_lo < 0 then ([(int n + loc_cell_lo, int n), (0, loc_cell_hi)], loc_cell_lo)
      else if loc_cell_hi > int n then ([(0, loc_cell_hi - int n), (loc_cell_lo, int n)], loc_cell_hi - int n)
      else ([(loc_cell_lo, loc_cell_hi)], 0))"

text \<open>
  \<^verbatim>\<open>getLocalIndices\<close> returns the boolean mask of the patch (\<open>ny\<close> rows of \<open>nx\<close> cells)
  and the two rolls. A cell is set when its row lies in a slice of \<^verbatim>\<open>yranges\<close> and its
  column in a slice of \<^verbatim>\<open>xranges\<close>. The innermost loops of the source only compute a
  value that is never used.
\<close>

definition getLocalIndices ::
  "vec2 \<Rightarrow> real \<Rightarrow> real \<Rightarrow> real \<Rightarrow> nat \<Rightarrow> nat \<Rightarrow> bool list list \<times> int \<times> int" where
  "getLocalIndices obs_loc scale_r dx dy nx ny =
     (let boxed_r = dx * of_int \<lceil>scale_r * 1.5\<rceil>;
          loc_cell_left = round_half_even (fst obs_loc / dx) - round_half_even (boxed_r / dx);
          loc_cell_right = round_half_even (fst obs_loc / dx) + round_half_even ((boxed_r + dx) / dx);
          loc_cell_down = round_half_even (snd obs_loc / dy) - round_half_even (boxed_r / dy);
          loc_cell_up = round_half_even (snd obs_loc / dy) + round_half_even ((boxed_r + dy) / dy);
          (xranges, xroll) = axis_ranges loc_cell_left loc_cell_right nx;
          (yranges, yroll) = axis_ranges loc_cell_down loc_cell_up ny;
          xs = concat (map (\<lambda>(a, b). py_slice a b nx) xranges);
          ys = concat (map (\<lambda>(a, b). py_slice a b ny) yranges);
          localIndices = map (\<lambda>y. map (\<lambda>x. y \<in> set ys \<and> x \<in> set xs) [0 ..< nx]) [0 ..< ny]
      in (localIndices, xroll, yroll))"

subsection \<open>The weight stencil and the combined weights\<close>

text \<open>
  \<^verbatim>\<open>getLocalWeightShape\<close>: a square stencil of side \<open>2 \<lceil>1.5 scale_r\<rceil> + 1\<close>;
  \<^verbatim>\<open>np.zeros\<close> raises \<^verbatim>\<open>ValueError\<close> for a negative side.
\<close>

definition getLocalWeightShape :: "real \<Rightarrow> real \<Rightarrow> real \<Rightarrow> nat \<Rightarrow> nat \<Rightarrow> real \<Rightarrow> error + matrix" where
  "getLocalWeightShape scale_r dx dy nx ny scale_w =
     (let local_n = \<lceil>scale_r * 1.5\<rceil> * 2 + 1 in
      if local_n < 0 then Inl ValueError
      else
        let local_nx = nat local_n; local_ny = nat local_n;
            obs_loc = (real local_nx * dx / 2, real local_ny * dy / 2);
            weights = map (\<lambda>y. map (\<lambda>x.
                let loc = ((real x + 0.5) * dx, (real y + 0.5) * dy)
                in if norm2 (fst obs_loc - fst loc, snd obs_loc - snd loc) > 1.5 * scale_r * dx then 0
                   else min 1 (distGC obs_loc loc (scale_r * dx) (real nx * dx) (real ny * dy)))
              [0 ..< local_nx]) [0 ..< local_ny]
        in Inr (scale scale_w weights))"

text \<open>\<^verbatim>\<open>np.roll\<close> along one axis: entry \<open>i\<close> of the result is entry \<open>i - shift\<close> modulo the length.\<close>

definition roll :: "int \<Rightarrow> 'a list \<Rightarrow> 'a list" where
  "roll shift xs = map (\<lambda>i. xs ! nat ((int i - shift) mod int (length xs))) [0 ..< length xs]"

definition roll2 :: "int \<Rightarrow> int \<Rightarrow> 'a list list \<Rightarrow> 'a list list" where
  "roll2 yroll xroll W = map (roll xroll) (roll yroll W)"



definition mask_count :: "bool list list \<Rightarrow> nat" where
  "mask_count L = length (filter id (concat L))"

fun mask_add_row :: "bool list \<Rightarrow> real list \<Rightarrow> real list \<Rightarrow> real list" where
  "mask_add_row (b # bs) (x # xs) vs =
     (if b then (case vs of [] \<Rightarrow> x # xs | v # vs' \<Rightarrow> (x + v) # mask_add_row bs xs vs')
      else x # mask_add_row bs xs vs)"
| "mask_add_row bs xs vs = xs"

fun mask_add_rows :: "bool list list \<Rightarrow> real list list \<Rightarrow> real list \<Rightarrow> real list list" where
  "mask_add_rows (bs # L) (xs # X) vs =
     mask_add_row bs xs (take (length (filter id bs)) vs)
       # mask_add_rows L X (drop (length (filter id bs)) vs)"
| "mask_add_rows L X vs = X"

text \<open>
  \<^verbatim>\<open>X[L] += v\<close> with the shapes checked: numpy accepts a vector with one entry per
  selected cell, and repeats a vector of length 1.
\<close>

definition mask_add :: "bool list list \<Rightarrow> real list list \<Rightarrow> real list \<Rightarrow> error + real list list" where
  "mask_add L X v =
     (if length v = mask_count L then Inr (mask_add_rows L X v)
      else if length v = 1 then Inr (mask_add_rows L X (replicate (mask_count L) (v ! 0)))
      else Inl ValueError)"

text \<open>The loop over the drifters in \<^verbatim>\<open>getCombinedWeights\<close>.\<close>

fun add_drifter_weights ::
  "matrix \<Rightarrow> real \<Rightarrow> real \<Rightarrow> real \<Rightarrow> nat \<Rightarrow> nat \<Rightarrow> vec2 list \<Rightarrow> matrix \<Rightarrow> error + matrix" where
  "add_drifter_weights W_loc scale_r dx dy nx ny [] W_scale = Inr W_scale"
| "add_drifter_weights W_loc scale_r dx dy nx ny (obs_loc # rest) W_scale =
     (let (L, xroll, yroll) = getLocalIndices obs_loc scale_r dx dy nx ny;
          W_loc_d = roll2 yroll xroll W_loc
      in bindE (mask_add L W_scale (concat W_loc_d))
           (add_drifter_weights W_loc scale_r dx dy nx ny rest))"

definition getCombinedWeights ::
  "vec2 list \<Rightarrow> real \<Rightarrow> real \<Rightarrow> real \<Rightarrow> nat \<Rightarrow> nat \<Rightarrow> real \<Rightarrow> error + matrix" where
  "getCombinedWeights observation_positions scale_r dx dy nx ny scale_w =
     (let W_scale = replicate ny (replicate nx 0) in
      bindE (getLocalWeightShape scale_r dx dy nx ny scale_w) (\<lambda>W_loc.
        add_drifter_weights W_loc scale_r dx dy nx ny observation_positions W_scale))"


subsection \<open>Blend weights: \<^verbatim>\<open>initializeLocalPatches\<close>\<close>

text \<open>
  \<^verbatim>\<open>W_scale = np.maximum(W_combined, 1)\<close>, \<^verbatim>\<open>W_analysis = W_combined/W_scale\<close> and
  \<^verbatim>\<open>W_forecast = np.ones_like(W_scale) - W_analysis\<close>, cell by cell.
\<close>

definition blend_weights :: "matrix \<Rightarrow> matrix \<times> matrix" where
  "blend_weights W_combined =
     (let W_scale = map (map (\<lambda>w. max w 1)) W_combined;
          W_analysis = map2 (map2 (\<lambda>c s. c / s)) W_combined W_scale;
          W_forecast = map2 (map2 (\<lambda>one a. one - a)) (map (map (\<lambda>s. 1)) W_scale) W_analysis
      in (W_analysis, W_forecast))"

text \<open>
  \<^verbatim>\<open>self.drifter_positions[self.groups[g]]\<close>: indexing with a list of indices raises
  \<^verbatim>\<open>IndexError\<close> when one of them is out of range.
\<close>

definition take_positions :: "vec2 list \<Rightarrow> nat list \<Rightarrow> error + vec2 list" where
  "take_positions drifter_positions grp =
     (if list_all (\<lambda>i. i < length drifter_positions) grp
      then Inr (map (\<lambda>i. drifter_positions ! i) grp) else Inl IndexError)"

text \<open>The loop over the groups, which appends to \<^verbatim>\<open>W_analyses\<close> and \<^verbatim>\<open>W_forecasts\<close>.\<close>

fun patches_loop ::
  "vec2 list \<Rightarrow> real \<Rightarrow> real \<Rightarrow> real \<Rightarrow> nat \<Rightarrow> nat \<Rightarrow> real \<Rightarrow> nat list list \<Rightarrow>
   matrix list \<times> matrix list \<Rightarrow> error + matrix list \<times> matrix list" where
  "patches_loop drifter_positions r_factor dx dy nx ny scale_w [] acc = Inr acc"
| "patches_loop drifter_positions r_factor dx dy nx ny scale_w (grp # rest) (W_analyses, W_forecasts) =
     bindE (take_positions drifter_positions grp) (\<lambda>positions.
     bindE (getCombinedWeights positions r_factor dx dy nx ny scale_w) (\<lambda>W_combined.
       let (W_analysis, W_forecast) = blend_weights W_combined
       in patches_loop drifter_positions r_factor dx dy nx ny scale_w rest
            (W_analyses @ [W_analysis], W_forecasts @ [W_forecast])))"

text \<open>
  \<^verbatim>\<open>initializeLocalPatches\<close> returns the filter object (with \<^verbatim>\<open>r_factor\<close> replaced when
  the argument is positive), the stencil \<^verbatim>\<open>W_loc\<close> and the two lists of weight fields.
\<close>

definition initializeLocalPatches ::
  "lenkf \<Rightarrow> vec2 list \<Rightarrow> nat list list \<Rightarrow> real \<Rightarrow> error + lenkf \<times> matrix \<times> matrix list \<times> matrix list" where
  "initializeLocalPatches self drifter_positions groups r_factor =
     (let dy = ens_dy (self_ensemble self); dx = ens_dx (self_ensemble self);
          nx = ens_nx (self_ensemble self); ny = ens_ny (self_ensemble self);
          self' = (if r_factor > 0 then self \<lparr> self_r_factor := r_factor \<rparr> else self)
      in bindE (getLocalWeightShape (self_r_factor self') dx dy nx ny (self_scale_w self')) (\<lambda>W_loc.
         bindE (patches_loop drifter_positions (self_r_factor self') dx dy nx ny (self_scale_w self')
                  groups ([], [])) (\<lambda>(W_analyses, W_forecasts).
           Inr (self', W_loc, W_analyses, W_forecasts))))"

subsection \<open>The blend weights are a convex pair\<close>

text \<open>All entries of an array are non-negative.\<close>

definition nonneg :: "matrix \<Rightarrow> bool" where
  "nonneg W = (\<forall>row \<in> set W. \<forall>w \<in> set row. 0 \<le> w)"

lemma norm2_nonneg: "0 \<le> norm2 v"
  by (simp add: norm2_def)

lemma distGC_dist_nonneg: "0 \<le> distGC_dist obs loc lx ly"
  by (simp add: distGC_dist_def Let_def norm2_nonneg)

lemma distGC_nonneg: "0 < r \<Longrightarrow> 0 \<le> distGC obs loc r lx ly"
  by (simp add: distGC_def distGC_value_nonneg distGC_dist_nonneg)

lemma getLocalWeightShape_nonneg:
  assumes "getLocalWeightShape scale_r dx dy nx ny scale_w = Inr W_loc"
    and "0 \<le> scale_w" "0 < scale_r * dx"
  shows "nonneg W_loc"
proof -
  have "\<And>obs loc. 0 \<le> scale_w * min 1 (distGC obs loc (scale_r * dx) (real nx * dx) (real ny * dy))"
    using assms(2,3) by (intro mult_nonneg_nonneg) (simp_all add: distGC_nonneg)
  then show ?thesis
    using assms(1)
    by (auto simp: getLocalWeightShape_def Let_def scale_def nonneg_def split: if_splits)
qed


lemma set_roll: "set (roll shift xs) \<subseteq> set xs"
proof
  fix x assume "x \<in> set (roll shift xs)"
  then have "x \<in> (\<lambda>i. xs ! nat ((int i - shift) mod int (length xs))) ` set [0 ..< length xs]"
    unfolding roll_def by (simp only: set_map)
  then obtain i where i0: "i \<in> set [0 ..< length xs]"
    and i2: "x = xs ! nat ((int i - shift) mod int (length xs))"
    by (rule imageE)
  have i: "i < length xs" "x = xs ! nat ((int i - shift) mod int (length xs))"
    using i0 i2 by simp_all
  have n: "0 < int (length xs)" using i(1) by (cases xs) simp_all
  have b: "(int i - shift) mod int (length xs) < int (length xs)"
    using n by (rule pos_mod_bound)
  have a: "0 \<le> (int i - shift) mod int (length xs)"
    using n by (rule pos_mod_sign)
  have "nat ((int i - shift) mod int (length xs)) < length xs"
    using a b by (simp only: nat_less_iff)
  then show "x \<in> set xs" unfolding i(2) by (rule nth_mem)
qed

lemma nonneg_roll2:
  assumes "nonneg W"
  shows "nonneg (roll2 yroll xroll W)"
  unfolding nonneg_def roll2_def
proof (intro ballI)
  fix row w
  assume row: "row \<in> set (map (roll xroll) (roll yroll W))" and w: "w \<in> set row"
  from row have "row \<in> roll xroll ` set (roll yroll W)" by (simp only: set_map)
  then obtain r0 where r0: "r0 \<in> set (roll yroll W)" and e: "row = roll xroll r0"
    by (rule imageE)
  have "r0 \<in> set W" using r0 set_roll by (rule subsetD [rotated])
  moreover have "w \<in> set r0" using w set_roll unfolding e by (rule subsetD [rotated])
  ultimately show "0 \<le> w" using assms unfolding nonneg_def by blast
qed

lemma mask_add_row_nonneg:
  "\<forall>x \<in> set xs. 0 \<le> x \<Longrightarrow> \<forall>v \<in> set vs. 0 \<le> v \<Longrightarrow> \<forall>x \<in> set (mask_add_row bs xs vs). 0 \<le> x"
  by (induction bs xs vs rule: mask_add_row.induct) (auto split: list.splits)

lemma mask_add_row_length: "length (mask_add_row bs xs vs) = length xs"
  by (induction bs xs vs rule: mask_add_row.induct) (auto split: list.splits)

lemma mask_add_rows_nonneg:
  "nonneg X \<Longrightarrow> \<forall>v \<in> set vs. 0 \<le> v \<Longrightarrow> nonneg (mask_add_rows L X vs)"
proof (induction L X vs rule: mask_add_rows.induct)
  case (1 bs L xs X vs)
  have "\<forall>v \<in> set (take (length (filter id bs)) vs). 0 \<le> v"
    using "1.prems"(2) by (auto dest: in_set_takeD)
  then have "\<forall>x \<in> set (mask_add_row bs xs (take (length (filter id bs)) vs)). 0 \<le> x"
    using "1.prems"(1) by (intro mask_add_row_nonneg) (simp_all add: nonneg_def)
  moreover have "nonneg (mask_add_rows L X (drop (length (filter id bs)) vs))"
    using "1.prems" by (intro "1.IH") (auto simp: nonneg_def dest: in_set_dropD)
  ultimately show ?case by (simp add: nonneg_def)
qed simp_all

lemma mask_add_nonneg:
  assumes "mask_add L X v = Inr X'" "nonneg X" "\<forall>x \<in> set v. 0 \<le> x"
  shows "nonneg X'"
proof (cases "length v = mask_count L")
  case True
  then show ?thesis using assms by (auto simp: mask_add_def intro: mask_add_rows_nonneg)
next
  case False
  then have l: "length v = 1" and X': "X' = mask_add_rows L X (replicate (mask_count L) (v ! 0))"
    using assms(1) by (auto simp: mask_add_def split: if_splits)
  have "0 \<le> v ! 0" using l assms(3) by (cases v) auto
  then show ?thesis using X' assms(2) by (auto intro: mask_add_rows_nonneg)
qed

lemma add_drifter_weights_Cons:
  assumes "getLocalIndices obs_loc scale_r dx dy nx ny = (L, xroll, yroll)"
  shows "add_drifter_weights W_loc scale_r dx dy nx ny (obs_loc # rest) W_scale
      = bindE (mask_add L W_scale (concat (roll2 yroll xroll W_loc)))
          (add_drifter_weights W_loc scale_r dx dy nx ny rest)"
  by (simp only: add_drifter_weights.simps assms Let_def prod.case)

lemma add_drifter_weights_nonneg:
  "add_drifter_weights W_loc scale_r dx dy nx ny positions W_scale = Inr W \<Longrightarrow>
     nonneg W_loc \<Longrightarrow> nonneg W_scale \<Longrightarrow> nonneg W"
proof (induction positions arbitrary: W_scale)
  case Nil
  then show ?case by (simp only: add_drifter_weights.simps sum.inject)
next
  case (Cons obs_loc rest)
  obtain L xroll yroll where g: "getLocalIndices obs_loc scale_r dx dy nx ny = (L, xroll, yroll)"
    using prod_cases3 by blast
  have "bindE (mask_add L W_scale (concat (roll2 yroll xroll W_loc)))
          (add_drifter_weights W_loc scale_r dx dy nx ny rest) = Inr W"
    using Cons.prems(1) by (simp only: add_drifter_weights_Cons [OF g])
  then obtain W1 where
    W1: "mask_add L W_scale (concat (roll2 yroll xroll W_loc)) = Inr W1"
    and r: "add_drifter_weights W_loc scale_r dx dy nx ny rest W1 = Inr W"
    unfolding bindE_Inr_iff by blast
  have rolled: "nonneg (roll2 yroll xroll W_loc)"
    using Cons.prems(2) by (rule nonneg_roll2)
  have "\<forall>x \<in> set (concat (roll2 yroll xroll W_loc)). 0 \<le> x"
  proof
    fix x assume "x \<in> set (concat (roll2 yroll xroll W_loc))"
    then obtain row where "row \<in> set (roll2 yroll xroll W_loc)" "x \<in> set row"
      unfolding set_concat by blast
    then show "0 \<le> x" using rolled unfolding nonneg_def by blast
  qed
  then have "nonneg W1" by (rule mask_add_nonneg [OF W1 Cons.prems(3)])
  then show ?case using Cons.IH [OF r Cons.prems(2)] by simp
qed

lemma getCombinedWeights_nonneg:
  assumes "getCombinedWeights positions scale_r dx dy nx ny scale_w = Inr W_combined"
    and "0 \<le> scale_w" "0 < scale_r * dx"
  shows "nonneg W_combined"
proof -
  from assms(1) obtain W_loc where
    W_loc: "getLocalWeightShape scale_r dx dy nx ny scale_w = Inr W_loc"
    and r: "add_drifter_weights W_loc scale_r dx dy nx ny positions (replicate ny (replicate nx 0))
        = Inr W_combined"
    unfolding getCombinedWeights_def Let_def bindE_Inr_iff by blast
  have z: "nonneg (replicate ny (replicate nx 0))" by (simp add: nonneg_def)
  show ?thesis
    by (rule add_drifter_weights_nonneg [OF r getLocalWeightShape_nonneg [OF W_loc assms(2,3)] z])
qed

text \<open>A pair of fields is a convex pair when, cell by cell, both lie in \<open>[0, 1]\<close> and add up to 1.\<close>

definition convex_pair :: "matrix \<Rightarrow> matrix \<Rightarrow> bool" where
  "convex_pair W_analysis W_forecast =
     (length W_analysis = length W_forecast
      \<and> (\<forall>y < length W_analysis. length (W_analysis ! y) = length (W_forecast ! y)
           \<and> (\<forall>x < length (W_analysis ! y).
                 W_analysis ! y ! x + W_forecast ! y ! x = 1
                 \<and> 0 \<le> W_analysis ! y ! x \<and> W_analysis ! y ! x \<le> 1
                 \<and> 0 \<le> W_forecast ! y ! x \<and> W_forecast ! y ! x \<le> 1)))"

lemma map2_same_left: "map2 f xs (map g xs) = map (\<lambda>x. f x (g x)) xs"
  by (induction xs) simp_all

lemma map2_same_both: "map2 f (map h xs) (map g xs) = map (\<lambda>x. f (h x) (g x)) xs"
  by (induction xs) simp_all

lemma blend_weights_eq:
  "blend_weights W_combined
     = (map (map (\<lambda>c. c / max c 1)) W_combined, map (map (\<lambda>c. 1 - c / max c 1)) W_combined)"
proof -
  have a: "map2 (map2 (\<lambda>c s. c / s)) W_combined (map (map (\<lambda>w. max w 1)) W_combined)
      = map (map (\<lambda>c. c / max c 1)) W_combined"
    by (simp only: map2_same_left)
  have f: "map2 (map2 (\<lambda>one a. one - a)) (map (map (\<lambda>s. 1)) (map (map (\<lambda>w. max w 1)) W_combined))
        (map (map (\<lambda>c. c / max c 1)) W_combined)
      = map (map (\<lambda>c. 1 - c / max c 1)) W_combined"
    by (simp only: map_map map2_same_both comp_def)
  show ?thesis
    by (simp only: blend_weights_def Let_def a f)
qed

lemma blend_weights_convex:
  assumes "nonneg W_combined" "blend_weights W_combined = (W_analysis, W_forecast)"
  shows "convex_pair W_analysis W_forecast \<and> length W_analysis = length W_combined
       \<and> (\<forall>y < length W_combined. length (W_analysis ! y) = length (W_combined ! y))"
proof -
  have c: "\<And>y x. y < length W_combined \<Longrightarrow> x < length (W_combined ! y) \<Longrightarrow> 0 \<le> W_combined ! y ! x"
  proof -
    fix y x assume "y < length W_combined" "x < length (W_combined ! y)"
    then have "W_combined ! y \<in> set W_combined" "W_combined ! y ! x \<in> set (W_combined ! y)"
      by simp_all
    then show "0 \<le> W_combined ! y ! x" using assms(1) by (simp add: nonneg_def)
  qed
  have a: "W_analysis = map (map (\<lambda>c. c / max c 1)) W_combined"
    using assms(2) by (simp add: blend_weights_eq)
  have f: "W_forecast = map (map (\<lambda>c. 1 - c / max c 1)) W_combined"
    using assms(2) by (simp add: blend_weights_eq)
  have r: "\<And>c::real. 0 \<le> c \<Longrightarrow> 0 \<le> c / max c 1 \<and> c / max c 1 \<le> 1"
    by (simp add: max_def)
  have "convex_pair W_analysis W_forecast"
    unfolding convex_pair_def a f
  proof (intro conjI allI impI)
    show "length (map (map (\<lambda>c. c / max c 1)) W_combined)
        = length (map (map (\<lambda>c. 1 - c / max c 1)) W_combined)" by simp
  next
    fix y assume "y < length (map (map (\<lambda>c. c / max c 1)) W_combined)"
    then show "length (map (map (\<lambda>c. c / max c 1)) W_combined ! y)
        = length (map (map (\<lambda>c. 1 - c / max c 1)) W_combined ! y)" by simp
  next
    fix y x
    assume "y < length (map (map (\<lambda>c. c / max c 1)) W_combined)"
      "x < length (map (map (\<lambda>c. c / max c 1)) W_combined ! y)"
    then have yx: "y < length W_combined" "x < length (W_combined ! y)" by simp_all
    note rr = r [OF c [OF yx]]
    have e1: "map (map (\<lambda>c. c / max c 1)) W_combined ! y ! x
        = W_combined ! y ! x / max (W_combined ! y ! x) 1"
      using yx by simp
    have e2: "map (map (\<lambda>c. 1 - c / max c 1)) W_combined ! y ! x
        = 1 - W_combined ! y ! x / max (W_combined ! y ! x) 1"
      using yx by simp
    show "map (map (\<lambda>c. c / max c 1)) W_combined ! y ! x
        + map (map (\<lambda>c. 1 - c / max c 1)) W_combined ! y ! x = 1"
      unfolding e1 e2 by simp
    show "0 \<le> map (map (\<lambda>c. c / max c 1)) W_combined ! y ! x"
      unfolding e1 using rr by simp
    show "map (map (\<lambda>c. c / max c 1)) W_combined ! y ! x \<le> 1"
      unfolding e1 using rr by simp
    show "0 \<le> map (map (\<lambda>c. 1 - c / max c 1)) W_combined ! y ! x"
      unfolding e2 using rr by simp
    show "map (map (\<lambda>c. 1 - c / max c 1)) W_combined ! y ! x \<le> 1"
      unfolding e2 using rr by simp
  qed
  then show ?thesis unfolding a by simp
qed

lemma patches_loop_convex:
  assumes "patches_loop drifter_positions r_factor dx dy nx ny scale_w groups (Wa0, Wf0) = Inr (Was, Wfs)"
    and "0 \<le> scale_w" "0 < r_factor * dx"
    and "list_all2 convex_pair Wa0 Wf0"
  shows "list_all2 convex_pair Was Wfs \<and> length Was = length Wa0 + length groups"
  using assms
proof (induction groups arbitrary: Wa0 Wf0)
  case Nil
  then show ?case by simp
next
  case (Cons grp rest)
  from Cons.prems(1) obtain positions W_combined where
    p: "take_positions drifter_positions grp = Inr positions"
    and c: "getCombinedWeights positions r_factor dx dy nx ny scale_w = Inr W_combined"
    and r: "(let (W_analysis, W_forecast) = blend_weights W_combined
       in patches_loop drifter_positions r_factor dx dy nx ny scale_w rest
            (Wa0 @ [W_analysis], Wf0 @ [W_forecast])) = Inr (Was, Wfs)"
    unfolding patches_loop.simps bindE_Inr_iff by blast
  obtain W_analysis W_forecast where b: "blend_weights W_combined = (W_analysis, W_forecast)"
    by (cases "blend_weights W_combined") blast
  have r': "patches_loop drifter_positions r_factor dx dy nx ny scale_w rest
            (Wa0 @ [W_analysis], Wf0 @ [W_forecast]) = Inr (Was, Wfs)"
    using r by (simp only: b Let_def prod.case)
  have nn: "nonneg W_combined"
    using c Cons.prems(2,3) by (rule getCombinedWeights_nonneg)
  have cp: "convex_pair W_analysis W_forecast"
    using blend_weights_convex [OF nn b] by blast
  have "list_all2 convex_pair (Wa0 @ [W_analysis]) (Wf0 @ [W_forecast])"
    using Cons.prems(4) cp by (simp add: list_all2_appendI)
  then have "list_all2 convex_pair Was Wfs \<and> length Was = length (Wa0 @ [W_analysis]) + length rest"
    using Cons.IH [OF r' Cons.prems(2,3)] by blast
  then show ?case by simp
qed

text \<open>
  Claim C2. For a non-negative relaxation factor (and a positive cell size and a positive
  localisation radius) every pair of weight fields that \<^verbatim>\<open>initializeLocalPatches\<close>
  produces, one pair per group, satisfies cell by cell
  \<open>analysisWeight + forecastWeight = 1\<close> with both weights in \<open>[0, 1]\<close>.
\<close>

theorem initializeLocalPatches_blend_weights:
  assumes "initializeLocalPatches self drifter_positions groups r_factor
             = Inr (self', W_loc, W_analyses, W_forecasts)"
    and "0 \<le> self_scale_w self" "0 < ens_dx (self_ensemble self)"
    and "0 < r_factor \<or> 0 < self_r_factor self"
  shows "length W_analyses = length groups \<and> length W_forecasts = length groups
       \<and> (\<forall>g < length groups. convex_pair (W_analyses ! g) (W_forecasts ! g))"
proof -
  let ?r = "if r_factor > 0 then r_factor else self_r_factor self"
  let ?self = "if r_factor > 0 then self \<lparr> self_r_factor := r_factor \<rparr> else self"
  have r: "self_r_factor ?self = ?r" by simp
  have w: "self_scale_w ?self = self_scale_w self" by simp
  have rpos: "0 < ?r * ens_dx (self_ensemble self)"
    using assms(3,4) by (auto simp: not_less intro: mult_pos_pos)
  from assms(1) have "patches_loop drifter_positions (self_r_factor ?self) (ens_dx (self_ensemble self))
      (ens_dy (self_ensemble self)) (ens_nx (self_ensemble self)) (ens_ny (self_ensemble self))
      (self_scale_w ?self) groups ([], []) = Inr (W_analyses, W_forecasts)"
    unfolding initializeLocalPatches_def Let_def bindE_Inr_iff by auto
  then have p: "patches_loop drifter_positions ?r (ens_dx (self_ensemble self))
      (ens_dy (self_ensemble self)) (ens_nx (self_ensemble self)) (ens_ny (self_ensemble self))
      (self_scale_w self) groups ([], []) = Inr (W_analyses, W_forecasts)"
    unfolding r w .
  have l: "list_all2 convex_pair W_analyses W_forecasts \<and> length W_analyses = length [] + length groups"
    using patches_loop_convex [OF p assms(2) rpos] by simp
  then have "length W_forecasts = length groups"
    by (auto dest: list_all2_lengthD)
  moreover have "\<forall>g < length groups. convex_pair (W_analyses ! g) (W_forecasts ! g)"
    using l by (simp add: list_all2_conv_all_nth)
  ultimately show ?thesis using l by simp
qed


text \<open>
  A 3 by 3 grid of unit cells with one drifter at \<open>(3/2, 3/2)\<close> and the localisation
  factor \<open>1/2\<close>: the stencil is 3 by 3 with the single weight 1 in its middle, and the
  patch covers the whole periodic grid with both rolls equal to 1.
\<close>

definition demo_particle_3x3 :: particle where
  "demo_particle_3x3 = \<lparr> p_ny = 3, p_nx = 3, p_ghost_cells_y = 0, p_ghost_cells_x = 0, p_dx = 1,
     p_eta = [[0, 0, 0], [0, 0, 0], [0, 0, 0]], p_hu = [[1, 1, 1], [1, 1, 1], [1, 1, 1]],
     p_hv = [[0, 0, 0], [0, 0, 0], [0, 0, 0]] \<rparr>"

definition demo_ensemble_3x3 :: ensemble where
  "demo_ensemble_3x3 = \<lparr>
     ens_particles = [demo_particle_3x3, demo_particle_3x3, demo_particle_3x3],
     ens_particlesActive = [True, True, True],
     ens_numParticles = 3, ens_numDrifters = 1, ens_numActiveParticles = 3,
     ens_dx = 1, ens_dy = 1, ens_nx = 3, ens_ny = 3,
     ens_observation_type = UnderlyingFlow,
     ens_trueState = [(3/2, 3/2, 1, 0)],
     ens_trueDrifters = [(3/2, 3/2)],
     ens_observationCov = [[1, 0], [0, 1]],
     ens_compensate_for_eta = False,
     ens_mean_depth = 10 \<rparr>"

definition demo_lenkf_3x3 :: lenkf where
  "demo_lenkf_3x3 = \<lparr> self_ensemble = demo_ensemble_3x3, self_N_e = 3, self_N_d = 1,
     self_n_i = 3, self_n_j = 3, self_ghost_cells_y = 0, self_ghost_cells_x = 0,
     self_inflation_factor = 1, self_scale_w = 1, self_r_factor = 15.0,
     self_method = ''SEnKF'', self_N_e_active = Some 3 \<rparr>"

lemma round_half_even_values:
  "round_half_even 1 = 1" "round_half_even 2 = 2" "round_half_even (3/2) = 2"
  by (simp_all add: round_half_even_def Let_def)

lemma distGC_dist_self: "distGC_dist p p lx ly = 0"
proof -
  have "min 0 (min (norm2 (0 - lx, 0)) (min (norm2 (0, 0 - ly)) (norm2 (0 - lx, 0 - ly)))) = 0"
    by (intro min_absorb1 min.boundedI norm2_nonneg)
  moreover have "norm2 (0, 0) = 0" by (simp add: norm2_def)
  ultimately show ?thesis by (simp add: distGC_dist_def Let_def)
qed

lemma sqrt_2_gt: "3 / 4 < sqrt 2"
  by (rule real_less_rsqrt) (simp add: power2_eq_square)

lemma demo_W_loc:
  "getLocalWeightShape (1/2) 1 1 3 3 1 = Inr [[0, 0, 0], [0, 1, 0], [0, 0, 0]]"
proof -
  have c: "\<lceil>(1/2::real) * 1.5\<rceil> * 2 + 1 = 3" by simp
  have d: "distGC (3/2, 3/2) (3/2, 3/2) (1/2) 3 3 = 1"
    by (simp add: distGC_def distGC_dist_self distGC_value_def gc_near_0)
  show ?thesis
    unfolding getLocalWeightShape_def Let_def c
    using d sqrt_2_gt
    by (simp add: eval_nat_numeral upt_rec [of 0] norm2_def scale_def)
qed


lemma demo_local_indices:
  "getLocalIndices (3/2, 3/2) (1/2) 1 1 3 3
     = ([[True, True, True], [True, True, True], [True, True, True]], 1, 1)"
proof -
  have c: "\<lceil>(1/2::real) * 1.5\<rceil> = 1" by simp
  have a: "axis_ranges 1 4 3 = ([(0, 1), (1, 3)], 1)"
    by (simp add: axis_ranges_def)
  have s: "py_slice 0 1 3 = [0]" "py_slice 1 3 3 = [1, 2]"
    by (simp_all add: py_slice_def upt_conv_Cons)
  have u: "[0 ..< 3] = [0, 1, 2]" by (simp add: upt_conv_Cons)
  show ?thesis
    unfolding getLocalIndices_def Let_def c
    by (simp add: round_half_even_values a s u)
qed

lemma demo_roll2:
  "roll2 1 1 [[0, 0, 0], [0, 1, 0], [0, 0, 0::real]] = [[0, 0, 0], [0, 0, 0], [0, 0, 1]]"
  by (simp add: roll2_def roll_def eval_nat_numeral upt_rec [of 0])

lemma demo_W_combined:
  "getCombinedWeights [(3/2, 3/2)] (1/2) 1 1 3 3 1 = Inr [[0, 0, 0], [0, 0, 0], [0, 0, 1]]"
proof -
  have m: "mask_add [[True, True, True], [True, True, True], [True, True, True]]
      [[0, 0, 0], [0, 0, 0], [0, 0, 0]] [0, 0, 0, 0, 0, 0, 0, 0, 1]
      = Inr [[0, 0, 0], [0, 0, 0], [0, 0, 1]]"
    by (simp add: mask_add_def mask_count_def)
  have z: "replicate 3 (replicate 3 (0::real)) = [[0, 0, 0], [0, 0, 0], [0, 0, 0]]"
    by (simp add: eval_nat_numeral)
  show ?thesis
    unfolding getCombinedWeights_def Let_def z
    by (simp add: demo_W_loc bindE_def demo_local_indices demo_roll2 m)
qed

lemma demo_initializeLocalPatches:
  "initializeLocalPatches demo_lenkf_3x3 [(3/2, 3/2)] [[0]] (1/2)
     = Inr (demo_lenkf_3x3 \<lparr> self_r_factor := 1/2 \<rparr>, [[0, 0, 0], [0, 1, 0], [0, 0, 0]],
            [[[0, 0, 0], [0, 0, 0], [0, 0, 1]]], [[[1, 1, 1], [1, 1, 1], [1, 1, 0]]])"
proof -
  have b: "blend_weights [[0, 0, 0], [0, 0, 0], [0, 0, 1]]
      = ([[0, 0, 0], [0, 0, 0], [0, 0, 1]], [[1, 1, 1], [1, 1, 1], [1, 1, 0]])"
    by (simp add: blend_weights_eq)
  have t: "take_positions [(3/2, 3/2)] [0] = Inr [(3/2, 3/2)]"
    by (simp add: take_positions_def)
  show ?thesis
    by (simp add: initializeLocalPatches_def demo_lenkf_3x3_def demo_ensemble_3x3_def
        demo_W_loc demo_W_combined bindE_def t b)
qed

theorem initializeLocalPatches_blend_weights_witness:
  "0 \<le> self_scale_w demo_lenkf_3x3 \<and> 0 < ens_dx (self_ensemble demo_lenkf_3x3)
   \<and> (0::real) < 1/2
   \<and> initializeLocalPatches demo_lenkf_3x3 [(3/2, 3/2)] [[0]] (1/2)
       = Inr (demo_lenkf_3x3 \<lparr> self_r_factor := 1/2 \<rparr>, [[0, 0, 0], [0, 1, 0], [0, 0, 0]],
              [[[0, 0, 0], [0, 0, 0], [0, 0, 1]]], [[[1, 1, 1], [1, 1, 1], [1, 1, 0]]])
   \<and> convex_pair [[0, 0, 0], [0, 0, 0], [0, 0, 1]] [[1, 1, 1], [1, 1, 1], [1, 1, 0]]"
proof -
  have h2: "0 \<le> self_scale_w demo_lenkf_3x3" by (simp add: demo_lenkf_3x3_def)
  have h3: "0 < ens_dx (self_ensemble demo_lenkf_3x3)"
    by (simp add: demo_lenkf_3x3_def demo_ensemble_3x3_def)
  have h4: "(0::real) < 1/2 \<or> 0 < self_r_factor demo_lenkf_3x3" by simp
  note t = initializeLocalPatches_blend_weights [OF demo_initializeLocalPatches h2 h3 h4]
  have "convex_pair ([[[0, 0, 0], [0, 0, 0], [0, 0, 1]]] ! 0) ([[[1, 1, 1], [1, 1, 1], [1, 1, 0]]] ! 0)"
    using t by simp
  then show ?thesis using h2 h3 demo_initializeLocalPatches by simp
qed

subsection \<open>The simulator, the libraries and the cached planner state\<close>


datatype event = Download nat | Upload nat | ApplyBoundaryConditions nat



subsection \<open>\<^verbatim>\<open>_prepare_LEnKF\<close>\<close>







subsection \<open>The global forecast: \<^verbatim>\<open>giveX_f_global\<close>\<close>








subsection \<open>The observed forecast: \<^verbatim>\<open>giveHX_f_global\<close>\<close>





subsection \<open>From the global array to the local vector and back\<close>











subsection \<open>The local update of one drifter\<close>





subsection \<open>The cycle: \<^verbatim>\<open>assimilate\<close>\<close>





subsection \<open>The terminal upload: \<^verbatim>\<open>uploadAnalysis\<close>\<close>







subsection \<open>The size check at the start of \<^verbatim>\<open>assimilate\<close>\<close>











subsection \<open>The ensemble is changed by the terminal upload only\<close>



text \<open>The events of \<^verbatim>\<open>uploadAnalysis\<close> on the particles with indices \<open>es\<close>.\<close>

definition upload_events :: "ensemble \<Rightarrow> nat list \<Rightarrow> event list" where
  "upload_events ens es =
     concat (map (\<lambda>e. [Upload e, ApplyBoundaryConditions e]) (filter (\<lambda>e. ens_particlesActive ens ! e) es))"












lemma upload_events_particles [simp]:
  "upload_events (ens \<lparr> ens_particles := ps \<rparr>) es = upload_events ens es"
  by (simp add: upload_events_def)










end
